theory Spec2Isabelle
  imports Complex_Main "HOL-Library.Sublist" "HOL-Library.Multiset"
    "HOL-Library.Char_ord" "HOL-Library.List_Lexorder"
begin

section \<open>Text\<close>

text \<open>
  A Go string that holds valid UTF-8 is modelled as the list of its Unicode code points
  (runes).  The regular expressions, \<open>strings.ToLower\<close>, \<open>strings.Fields\<close> and the
  Levenshtein distance of the matching package all work rune by rune; only \<open>len\<close> counts
  bytes, which \<open>byteLen\<close> recovers.  Identifiers that the program only compares and
  prints (sync ids, run ids, playlist ids, ISRC codes) are plain \<open>string\<close>s.
\<close>

type_synonym rune = nat
type_synonym runes = "rune list"

definition str :: "string \<Rightarrow> runes" where
  "str s = map of_char s"

definition runeLen :: "rune \<Rightarrow> nat" where
  "runeLen c = (if c < 128 then 1 else if c < 2048 then 2 else if c < 65536 then 3 else 4)"

definition byteLen :: "runes \<Rightarrow> nat" where
  "byteLen s = sum_list (map runeLen s)"

text \<open>\<open>unicode.IsSpace\<close>: the white space of \<open>strings.Fields\<close> and \<open>strings.TrimSpace\<close>.\<close>

definition isSpace :: "rune \<Rightarrow> bool" where
  "isSpace c = ((9 \<le> c \<and> c \<le> 13) \<or> c = 32 \<or> c = 133 \<or> c = 160 \<or> c = 5760
     \<or> (8192 \<le> c \<and> c \<le> 8202) \<or> c = 8232 \<or> c = 8233 \<or> c = 8239 \<or> c = 8287
     \<or> c = 12288)"

text \<open>The class \<open>\s\<close> of Go's regular expressions: tab, newline, form feed, return, space.\<close>

definition reSpace :: "rune \<Rightarrow> bool" where
  "reSpace c = (c = 9 \<or> c = 10 \<or> c = 12 \<or> c = 13 \<or> c = 32)"

definition lowerAlnum :: "rune \<Rightarrow> bool" where
  "lowerAlnum c = ((97 \<le> c \<and> c \<le> 122) \<or> (48 \<le> c \<and> c \<le> 57))"

text \<open>\<open>strings.Fields\<close>: the maximal runs of runes that are not white space.\<close>

fun fieldsFrom :: "runes \<Rightarrow> runes \<Rightarrow> runes list" where
  "fieldsFrom cur [] = (if cur = [] then [] else [cur])"
| "fieldsFrom cur (c # cs) =
     (if isSpace c then (if cur = [] then fieldsFrom [] cs else cur # fieldsFrom [] cs)
      else fieldsFrom (cur @ [c]) cs)"

definition Fields :: "runes \<Rightarrow> runes list" where
  "Fields s = fieldsFrom [] s"

text \<open>\<open>strings.Join\<close>.\<close>

fun Join :: "'a list list \<Rightarrow> 'a list \<Rightarrow> 'a list" where
  "Join [] sep = []"
| "Join [x] sep = x"
| "Join (x # y # ys) sep = x @ sep @ Join (y # ys) sep"

text \<open>\<open>strings.TrimSpace\<close>.\<close>

definition TrimSpace :: "runes \<Rightarrow> runes" where
  "TrimSpace s = rev (dropWhile isSpace (rev (dropWhile isSpace s)))"

section \<open>Regular expressions of the cleaner\<close>

text \<open>
  Go's \<open>regexp\<close> returns the leftmost match and, among the matches that start there, the
  one a backtracking search finds first.  \<open>rests r s\<close> lists, in that order of preference,
  what is left of \<open>s\<close> after each way of matching \<open>r\<close> at its start; the first element is
  Go's match.  Repetition is only needed over single-rune classes: \<open>StarG\<close> is the greedy
  \<open>c*\<close>, \<open>StarL\<close> the lazy \<open>c*?\<close>.
\<close>

datatype regex =
    Cls "rune \<Rightarrow> bool"
  | Eps
  | Cat regex regex
  | Alt regex regex
  | StarG "rune \<Rightarrow> bool"
  | StarL "rune \<Rightarrow> bool"

fun rests :: "regex \<Rightarrow> runes \<Rightarrow> runes list" where
  "rests (Cls p) [] = []"
| "rests (Cls p) (c # cs) = (if p c then [cs] else [])"
| "rests Eps s = [s]"
| "rests (Cat a b) s = concat (map (rests b) (rests a s))"
| "rests (Alt a b) s = rests a s @ rests b s"
| "rests (StarG p) [] = [] # []"
| "rests (StarG p) (c # cs) = (if p c then rests (StarG p) cs @ [c # cs] else [c # cs])"
| "rests (StarL p) [] = [] # []"
| "rests (StarL p) (c # cs) = (if p c then (c # cs) # rests (StarL p) cs else [c # cs])"

text \<open>
  \<open>ReplaceAllString\<close>: scan from the left; where the expression matches, emit the
  replacement and go on after the match, otherwise copy one rune.  None of the four
  expressions below matches the empty string, so a match that consumes nothing is
  treated as no match.
\<close>

function ReplaceAllString :: "regex \<Rightarrow> runes \<Rightarrow> runes \<Rightarrow> runes" where
  "ReplaceAllString r [] repl = []"
| "ReplaceAllString r (c # cs) repl =
     (case rests r (c # cs) of
        [] \<Rightarrow> c # ReplaceAllString r cs repl
      | t # _ \<Rightarrow>
          if length t < length (c # cs) then repl @ ReplaceAllString r t repl
          else c # ReplaceAllString r cs repl)"
  by pat_completeness auto
termination
  by (relation "measure (\<lambda>(r, s, repl). length s)") auto

text \<open>Literals under the flag \<open>(?i)\<close>: a letter also matches its upper case and the
  runes that fold to it (U+017F for s, U+212A for k).\<close>

definition foldEq :: "char \<Rightarrow> rune \<Rightarrow> bool" where
  "foldEq l c = (let n = of_char l in
     c = n \<or> (97 \<le> n \<and> n \<le> 122 \<and> c = n - 32)
     \<or> (n = 115 \<and> c = 383) \<or> (n = 107 \<and> c = 8490))"

fun lit :: "string \<Rightarrow> regex" where
  "lit [] = Eps"
| "lit (l # ls) = Cat (Cls (foldEq l)) (lit ls)"

definition opt :: "regex \<Rightarrow> regex" where
  "opt r = Alt r Eps"

definition plus :: "(rune \<Rightarrow> bool) \<Rightarrow> regex" where
  "plus p = Cat (Cls p) (StarG p)"

fun alts :: "regex list \<Rightarrow> regex" where
  "alts [] = Cls (\<lambda>c. False)"
| "alts [r] = r"
| "alts (r # rs) = Alt r (alts rs)"

fun cats :: "regex list \<Rightarrow> regex" where
  "cats [] = Eps"
| "cats (r # rs) = Cat r (cats rs)"

text \<open>\<^verbatim>\<open>(?i)\[\s*(feat|ft)\.?\s*[^\]]+\]|\(\s*(feat|ft)\.?\s*[^)]+\)\<close>\<close>

definition featRegex :: regex where
  "featRegex = Alt
     (cats [Cls (\<lambda>c. c = 91), StarG reSpace, Alt (lit ''feat'') (lit ''ft''),
            opt (Cls (\<lambda>c. c = 46)), StarG reSpace, plus (\<lambda>c. c \<noteq> 93), Cls (\<lambda>c. c = 93)])
     (cats [Cls (\<lambda>c. c = 40), StarG reSpace, Alt (lit ''feat'') (lit ''ft''),
            opt (Cls (\<lambda>c. c = 46)), StarG reSpace, plus (\<lambda>c. c \<noteq> 41), Cls (\<lambda>c. c = 41)])"

text \<open>\<^verbatim>\<open>(?i)[\(\[].*?(remix|edit|live|version|explicit|clean|instrumental|deluxe|mastered).*?[\)\]]\<close>;
  the dot does not match a newline.\<close>

definition tagsRegex :: regex where
  "tagsRegex = cats
     [Cls (\<lambda>c. c = 40 \<or> c = 91), StarL (\<lambda>c. c \<noteq> 10),
      alts [lit ''remix'', lit ''edit'', lit ''live'', lit ''version'', lit ''explicit'',
            lit ''clean'', lit ''instrumental'', lit ''deluxe'', lit ''mastered''],
      StarL (\<lambda>c. c \<noteq> 10), Cls (\<lambda>c. c = 41 \<or> c = 93)]"

text \<open>\<^verbatim>\<open>[^a-z0-9\s]+\<close>\<close>

definition nonAlphanumericRegex :: regex where
  "nonAlphanumericRegex = plus (\<lambda>c. \<not> (lowerAlnum c \<or> reSpace c))"

text \<open>\<^verbatim>\<open>\s+\<close>\<close>

definition extraWhitespaceRegex :: regex where
  "extraWhitespaceRegex = plus reSpace"

section \<open>Clean\<close>

text \<open>
  \<open>strings.ToLower\<close> maps every rune to its lower case: the ASCII letters as written
  here, the other runes by the Unicode table, which is the parameter \<open>lowerU\<close>.
\<close>

definition ToLower :: "(rune \<Rightarrow> rune) \<Rightarrow> runes \<Rightarrow> runes" where
  "ToLower lowerU s =
     map (\<lambda>c. if c < 128 then (if 65 \<le> c \<and> c \<le> 90 then c + 32 else c) else lowerU c) s"

text \<open>
  The transformer chain NFD, removal of the runes of category Mn, NFC.  Unicode
  normalisation leaves ASCII text as it is and no ASCII rune is a nonspacing mark, so on
  ASCII text the chain is the identity; what it does to any other text is the
  parameter \<open>stripU\<close>.
\<close>

definition removeDiacritics :: "(runes \<Rightarrow> runes) \<Rightarrow> runes \<Rightarrow> runes" where
  "removeDiacritics stripU s = (if list_all (\<lambda>c. c < 128) s then s else stripU s)"

definition Clean :: "(rune \<Rightarrow> rune) \<Rightarrow> (runes \<Rightarrow> runes) \<Rightarrow> runes \<Rightarrow> runes" where
  "Clean lowerU stripU s =
     (let s1 = ToLower lowerU s;
          s2 = removeDiacritics stripU s1;
          s3 = ReplaceAllString featRegex s2 [];
          s4 = ReplaceAllString tagsRegex s3 [];
          s5 = ReplaceAllString nonAlphanumericRegex s4 [32];
          s6 = ReplaceAllString extraWhitespaceRegex s5 [32]
      in TrimSpace s6)"

section \<open>Songs and the similarity score\<close>

datatype Datasource = DATASOURCE_UNSPECIFIED | SPOTIFY | YOUTUBE | TIDAL

text \<open>The fields of \<open>myncer_pb.Song\<close> that the engine and the matcher read.\<close>

record Song =
  Name :: runes
  ArtistName :: "runes list"
  AlbumName :: runes
  SongDatasource :: Datasource
  DatasourceSongId :: string
  Isrc :: string

text \<open>
  \<open>fuzzy.LevenshteinDistance\<close> of the library lithammer/fuzzysearch: the edit distance
  between the rune sequences of its arguments, with insertion, deletion and substitution
  at cost one.
\<close>

fun LevenshteinDistance :: "runes \<Rightarrow> runes \<Rightarrow> nat" where
  "LevenshteinDistance [] t = length t"
| "LevenshteinDistance (a # s) [] = Suc (length s)"
| "LevenshteinDistance (a # s) (b # t) =
     min (min (LevenshteinDistance s (b # t) + 1) (LevenshteinDistance (a # s) t + 1))
         (LevenshteinDistance s t + (if a = b then 0 else 1))"

text \<open>The scores are \<open>float64\<close> in the source and real numbers here.\<close>

definition normalizedLevenshtein :: "runes \<Rightarrow> runes \<Rightarrow> real" where
  "normalizedLevenshtein s1 s2 =
     (let distance = LevenshteinDistance s1 s2;
          maxLen = max (real (byteLen s1)) (real (byteLen s2))
      in if maxLen = 0 then 100 else (1 - real distance / maxLen) * 100)"

text \<open>
  Modelled from the spec: \<open>core.Set\<close>, \<open>core.ToSet\<close> and \<open>core.NewSet\<close> are not among the
  sources; a set of words is a finite set, built from a slice by \<open>ToSet\<close>.
\<close>

definition ToSet :: "'a list \<Rightarrow> 'a set" where
  "ToSet xs = set xs"

definition tokenSetRatio :: "runes \<Rightarrow> runes \<Rightarrow> real" where
  "tokenSetRatio s1 s2 =
     (let words1 = ToSet (Fields s1);
          words2 = ToSet (Fields s2)
      in if words1 = {} \<and> words2 = {} then 100
         else if words1 = {} \<or> words2 = {} then 0
         else
           let intersection = Set.filter (\<lambda>word. word \<in> words2) words1;
               union = words1 \<union> words2
           in (real (card intersection) / real (card union)) * 100)"

text \<open>The three component scores, as \<open>CalculateSimilarity\<close> computes them.\<close>

definition titleScore :: "(rune \<Rightarrow> rune) \<Rightarrow> (runes \<Rightarrow> runes) \<Rightarrow> Song \<Rightarrow> Song \<Rightarrow> real" where
  "titleScore lowerU stripU songA songB =
     normalizedLevenshtein (Clean lowerU stripU (Name songA)) (Clean lowerU stripU (Name songB))"

definition artistScore :: "(rune \<Rightarrow> rune) \<Rightarrow> (runes \<Rightarrow> runes) \<Rightarrow> Song \<Rightarrow> Song \<Rightarrow> real" where
  "artistScore lowerU stripU songA songB =
     (let artistA = Join (ArtistName songA) [32];
          artistB = Join (ArtistName songB) [32]
      in tokenSetRatio (Clean lowerU stripU artistA) (Clean lowerU stripU artistB))"

definition albumScore :: "(rune \<Rightarrow> rune) \<Rightarrow> (runes \<Rightarrow> runes) \<Rightarrow> Song \<Rightarrow> Song \<Rightarrow> real" where
  "albumScore lowerU stripU songA songB =
     normalizedLevenshtein (Clean lowerU stripU (AlbumName songA))
       (Clean lowerU stripU (AlbumName songB))"

text \<open>
  \<open>CalculateSimilarity\<close> of \<^verbatim>\<open>src/server/matching/song_matcher.go\<close>.  The file reads two
  variables \<open>albumA\<close> and \<open>albumB\<close> that it never declares; they are taken to be
  \<open>albumVar songA\<close> and \<open>albumVar songB\<close> for a parameter \<open>albumVar\<close> (\<open>AlbumName\<close> for the
  album as the provider gave it).
\<close>

definition CalculateSimilarity ::
  "(rune \<Rightarrow> rune) \<Rightarrow> (runes \<Rightarrow> runes) \<Rightarrow> (Song \<Rightarrow> runes) \<Rightarrow> Song \<Rightarrow> Song \<Rightarrow> real" where
  "CalculateSimilarity lowerU stripU albumVar songA songB =
     (let isrcA = Isrc songA; isrcB = Isrc songB
      in if isrcA \<noteq> [] \<and> isrcA = isrcB then 100
         else
           let ts = titleScore lowerU stripU songA songB;
               as = artistScore lowerU stripU songA songB;
               bs = albumScore lowerU stripU songA songB
           in if as < 50 then as * 0.5
              else
                let titleWeight =
                      (if albumVar songA \<noteq> [] \<and> albumVar songB \<noteq> [] \<and> bs < 70
                       then 0.30 else 0.45);
                    artistWeight = 0.45;
                    albumWeight = 0.10
                in ts * titleWeight + as * artistWeight + bs * albumWeight)"

text \<open>The earlier revision of the same function, first file of \<^verbatim>\<open>src/unnamed/part_000\<close>.\<close>

definition CalculateSimilarity_part000 ::
  "(rune \<Rightarrow> rune) \<Rightarrow> (runes \<Rightarrow> runes) \<Rightarrow> Song \<Rightarrow> Song \<Rightarrow> real" where
  "CalculateSimilarity_part000 lowerU stripU songA songB =
     (let isrcA = Isrc songA; isrcB = Isrc songB
      in if isrcA \<noteq> [] \<and> isrcA = isrcB then 100
         else
           let ts = titleScore lowerU stripU songA songB;
               as = artistScore lowerU stripU songA songB;
               bs = albumScore lowerU stripU songA songB
           in ts * 0.45 + as * 0.45 + bs * 0.10)"

definition AreDuplicates ::
  "(rune \<Rightarrow> rune) \<Rightarrow> (runes \<Rightarrow> runes) \<Rightarrow> (Song \<Rightarrow> runes) \<Rightarrow> Song \<Rightarrow> Song \<Rightarrow> real \<Rightarrow> bool" where
  "AreDuplicates lowerU stripU albumVar songA songB threshold =
     (CalculateSimilarity lowerU stripU albumVar songA songB \<ge> threshold)"

text \<open>Errors: \<open>core.NewError\<close> with its message, \<open>core.WrappedError\<close> around a cause.\<close>

datatype err = NewError string | WrappedError err string

text \<open>The inner loop of \<open>DeduplicateSongs\<close>: stop at the first song already kept that
  the candidate duplicates.\<close>

fun isDuplicate ::
  "(rune \<Rightarrow> rune) \<Rightarrow> (runes \<Rightarrow> runes) \<Rightarrow> (Song \<Rightarrow> runes) \<Rightarrow> real \<Rightarrow> Song \<Rightarrow> Song list \<Rightarrow> bool" where
  "isDuplicate lowerU stripU albumVar threshold song [] = False"
| "isDuplicate lowerU stripU albumVar threshold song (uniqueSong # rest) =
     (if AreDuplicates lowerU stripU albumVar song uniqueSong threshold then True
      else isDuplicate lowerU stripU albumVar threshold song rest)"

fun dedupLoop ::
  "(rune \<Rightarrow> rune) \<Rightarrow> (runes \<Rightarrow> runes) \<Rightarrow> (Song \<Rightarrow> runes) \<Rightarrow> real \<Rightarrow> Song list \<Rightarrow> Song list
     \<Rightarrow> Song list" where
  "dedupLoop lowerU stripU albumVar threshold uniqueSongs [] = uniqueSongs"
| "dedupLoop lowerU stripU albumVar threshold uniqueSongs (song # songs) =
     (if \<not> isDuplicate lowerU stripU albumVar threshold song uniqueSongs
      then dedupLoop lowerU stripU albumVar threshold (uniqueSongs @ [song]) songs
      else dedupLoop lowerU stripU albumVar threshold uniqueSongs songs)"

definition DeduplicateSongs ::
  "(rune \<Rightarrow> rune) \<Rightarrow> (runes \<Rightarrow> runes) \<Rightarrow> (Song \<Rightarrow> runes) \<Rightarrow> Song list \<Rightarrow> real
     \<Rightarrow> err + Song list" where
  "DeduplicateSongs lowerU stripU albumVar songs threshold =
     Inr (dedupLoop lowerU stripU albumVar threshold [] songs)"

text \<open>The shape of cleaned text: lower-case ASCII letters and digits, separated by
  single spaces, with no space at either end.\<close>

fun singleSpaced :: "runes \<Rightarrow> bool" where
  "singleSpaced (c # d # r) = (\<not> (c = 32 \<and> d = 32) \<and> singleSpaced (d # r))"
| "singleSpaced [c] = True"
| "singleSpaced [] = True"

definition cleanShape :: "runes \<Rightarrow> bool" where
  "cleanShape s = (list_all (\<lambda>c. lowerAlnum c \<or> c = 32) s \<and> singleSpaced s
     \<and> (if s = [] then True else hd s \<noteq> 32 \<and> last s \<noteq> 32))"






definition songArtists :: "(rune \<Rightarrow> rune) \<Rightarrow> (runes \<Rightarrow> runes) \<Rightarrow> Song \<Rightarrow> runes" where
  "songArtists lowerU stripU song = Clean lowerU stripU (Join (ArtistName song) [32])"


text \<open>Sample songs for the concrete evaluations below.\<close>

definition songX :: Song where
  "songX = \<lparr>Name = str ''a'', ArtistName = [str ''x''], AlbumName = [],
            SongDatasource = SPOTIFY, DatasourceSongId = ''1'', Isrc = []\<rparr>"

definition songY :: Song where
  "songY = \<lparr>Name = str ''a'', ArtistName = [str ''y''], AlbumName = [],
            SongDatasource = YOUTUBE, DatasourceSongId = ''2'', Isrc = []\<rparr>"

definition songZ :: Song where
  "songZ = \<lparr>Name = str ''b'', ArtistName = [], AlbumName = [],
            SongDatasource = SPOTIFY, DatasourceSongId = ''3'', Isrc = ''Q''\<rparr>"

definition songZ' :: Song where
  "songZ' = \<lparr>Name = str ''a'', ArtistName = [], AlbumName = [],
            SongDatasource = TIDAL, DatasourceSongId = ''4'', Isrc = ''Q''\<rparr>"

text \<open>The least number of runes that a match of an expression consumes.\<close>

fun minLen :: "regex \<Rightarrow> nat" where
  "minLen (Cls p) = 1"
| "minLen Eps = 0"
| "minLen (Cat a b) = minLen a + minLen b"
| "minLen (Alt a b) = min (minLen a) (minLen b)"
| "minLen (StarG p) = 0"
| "minLen (StarL p) = 0"

section \<open>Creating a sync: validation of the request\<close>

record MusicSource =
  SourceDatasource :: Datasource
  PlaylistId :: string

record OneWaySync =
  Source :: MusicSource
  Destination :: MusicSource
  OverwriteExisting :: bool

record PlaylistMergeSync =
  Sources :: "MusicSource list"
  MergeDestination :: MusicSource
  MergeOverwriteExisting :: bool

text \<open>The one-of \<open>sync_variant\<close>; \<open>NoVariant\<close> is the unset (nil) case.\<close>

datatype SyncVariant =
    Sync_OneWaySync OneWaySync
  | Sync_PlaylistMergeSync PlaylistMergeSync
  | NoVariant

record Sync =
  SyncIdOf :: string
  UserId :: string
  GetSyncVariant :: SyncVariant

















section \<open>Sync runs and the status broadcaster\<close>

datatype SyncStatus =
    SYNC_STATUS_UNSPECIFIED
  | SYNC_STATUS_PENDING
  | SYNC_STATUS_RUNNING
  | SYNC_STATUS_COMPLETED
  | SYNC_STATUS_FAILED
  | SYNC_STATUS_CANCELLED

text \<open>
  \<open>myncer_pb.SyncRun\<close>.  The web client reads the fields \<open>unmatchedSongs\<close>,
  \<open>createdAt\<close> and \<open>updatedAt\<close> of a run; the engine sets \<open>SyncId\<close>, \<open>RunId\<close> and
  \<open>SyncStatus\<close>, and the store assigns the two timestamps.
\<close>

record SyncRun =
  SyncId :: string
  RunId :: string
  SyncStatus :: SyncStatus
  UnmatchedSongs :: "Song list"
  CreatedAt :: nat
  UpdatedAt :: nat

text \<open>
  A buffered channel of runs: what it holds, oldest first, and how many it can hold.
  Channels are objects on the heap; the registry of the broadcaster holds their
  addresses, and \<open>channels\<close> maps an address to the channel that lives there.  A channel
  carries pointers to runs; the model records the run as it is when it is sent.
\<close>

record Chan =
  buffer :: "SyncRun list"
  capacity :: nat

record SyncStatusBroadcaster =
  subscribers :: "string \<Rightarrow> nat list option"
  channels :: "nat \<Rightarrow> Chan option"
  nextChan :: nat

definition NewSyncStatusBroadcaster :: SyncStatusBroadcaster where
  "NewSyncStatusBroadcaster = \<lparr>subscribers = (\<lambda>syncId. None), channels = (\<lambda>ch. None), nextChan = 0\<rparr>"

text \<open>A send that does not wait: \<open>None\<close> when the send would block because the buffer
  is full.\<close>

definition chanSend :: "Chan \<Rightarrow> SyncRun \<Rightarrow> Chan option" where
  "chanSend c v = (if length (buffer c) < capacity c then Some (c\<lparr>buffer := buffer c @ [v]\<rparr>) else None)"

text \<open>\<open>Subscribe\<close>: a new channel with room for 10 runs, appended to the list of the
  sync id.\<close>

definition Subscribe :: "SyncStatusBroadcaster \<Rightarrow> string \<Rightarrow> SyncStatusBroadcaster \<times> nat" where
  "Subscribe b syncId =
     (let ch = nextChan b;
          b1 = b\<lparr>channels := (channels b)(ch \<mapsto> \<lparr>buffer = [], capacity = 10\<rparr>), nextChan := ch + 1\<rparr>;
          b2 = (if subscribers b1 syncId = None
                then b1\<lparr>subscribers := (subscribers b1)(syncId \<mapsto> [])\<rparr> else b1)
      in (b2\<lparr>subscribers := (subscribers b2)(syncId \<mapsto> the (subscribers b2 syncId) @ [ch])\<rparr>, ch))"

text \<open>\<open>Unsubscribe\<close>: remove the first occurrence of the channel from the list of the
  sync id and close it (a closed channel leaves the heap of the model); drop the entry
  of the sync id when its list is empty.\<close>

definition Unsubscribe :: "SyncStatusBroadcaster \<Rightarrow> string \<Rightarrow> nat \<Rightarrow> SyncStatusBroadcaster" where
  "Unsubscribe b syncId ch =
     (let subs = (case subscribers b syncId of None \<Rightarrow> [] | Some l \<Rightarrow> l);
          b1 = (if ch \<in> set subs
                then b\<lparr>subscribers := (subscribers b)(syncId \<mapsto> remove1 ch subs),
                       channels := (channels b)(ch := None)\<rparr>
                else b)
      in if length (case subscribers b1 syncId of None \<Rightarrow> [] | Some l \<Rightarrow> l) = 0
         then b1\<lparr>subscribers := (subscribers b1)(syncId := None)\<rparr>
         else b1)"

text \<open>
  \<open>Broadcast\<close>: for each channel registered under the sync id of the run, in order, a
  \<open>select\<close> with a \<open>default\<close> branch: send if the send does not block, otherwise log a
  warning and go on.  The second component lists the channels that were skipped.
\<close>

fun broadcastLoop ::
  "SyncStatusBroadcaster \<Rightarrow> SyncRun \<Rightarrow> nat list \<Rightarrow> SyncStatusBroadcaster \<times> nat list" where
  "broadcastLoop b syncRun [] = (b, [])"
| "broadcastLoop b syncRun (ch # rest) =
     (case channels b ch of
        None \<Rightarrow> broadcastLoop b syncRun rest
      | Some c \<Rightarrow>
          (case chanSend c syncRun of
             Some c' \<Rightarrow> broadcastLoop (b\<lparr>channels := (channels b)(ch \<mapsto> c')\<rparr>) syncRun rest
           | None \<Rightarrow>
               (let (b', skipped) = broadcastLoop b syncRun rest in (b', ch # skipped))))"

definition Broadcast :: "SyncStatusBroadcaster \<Rightarrow> SyncRun \<Rightarrow> SyncStatusBroadcaster \<times> nat list" where
  "Broadcast b syncRun =
     (let syncId = SyncId syncRun
      in case subscribers b syncId of
           None \<Rightarrow> (b, [])
         | Some subs \<Rightarrow> broadcastLoop b syncRun subs)"

text \<open>The registry as \<open>Subscribe\<close> and \<open>Unsubscribe\<close> keep it: no channel twice in a
  list, and every listed channel allocated below \<open>nextChan\<close>.\<close>

definition registryOk :: "SyncStatusBroadcaster \<Rightarrow> bool" where
  "registryOk b = (\<forall>syncId subs. subscribers b syncId = Some subs \<longrightarrow>
     distinct subs \<and> (\<forall>ch \<in> set subs. ch < nextChan b))"

definition registeredUnder :: "SyncStatusBroadcaster \<Rightarrow> string \<Rightarrow> nat \<Rightarrow> bool" where
  "registeredUnder b syncId ch =
     (case subscribers b syncId of None \<Rightarrow> False | Some subs \<Rightarrow> ch \<in> set subs)"

text \<open>What a channel holds after a send that does not wait.\<close>

definition delivered :: "SyncRun \<Rightarrow> Chan \<Rightarrow> Chan" where
  "delivered v c = (if length (buffer c) < capacity c then c\<lparr>buffer := buffer c @ [v]\<rparr> else c)"

text \<open>Sample data: two channels under the sync s1, the first one full, and one
  channel under the sync s2.\<close>

definition sampleRun :: SyncRun where
  "sampleRun = \<lparr>SyncId = ''s1'', RunId = ''r1'', SyncStatus = SYNC_STATUS_RUNNING,
     UnmatchedSongs = [], CreatedAt = 0, UpdatedAt = 0\<rparr>"

definition sampleBroadcaster :: SyncStatusBroadcaster where
  "sampleBroadcaster =
     \<lparr>subscribers = [''s1'' \<mapsto> [0, 1], ''s2'' \<mapsto> [2]],
      channels = [0 \<mapsto> \<lparr>buffer = [sampleRun], capacity = 1\<rparr>,
                  1 \<mapsto> \<lparr>buffer = [], capacity = 10\<rparr>,
                  2 \<mapsto> \<lparr>buffer = [], capacity = 10\<rparr>],
      nextChan = 3\<rparr>"

text \<open>How many times a channel is listed under a sync id.\<close>

definition timesRegistered :: "SyncStatusBroadcaster \<Rightarrow> string \<Rightarrow> nat \<Rightarrow> nat" where
  "timesRegistered b syncId ch =
     count_list (case subscribers b syncId of None \<Rightarrow> [] | Some subs \<Rightarrow> subs) ch"

section \<open>The sync engine\<close>

text \<open>What a call into a collaborator can do: return a value, return an error, or
  panic.\<close>

datatype 'a outcome = Ok 'a | Failed err | Panicked

datatype ProviderOp =
    OpGetPlaylistSongs
  | OpNormalizeSongs
  | OpGetIdByDatasource
  | OpClearPlaylist
  | OpAddToPlaylist

text \<open>What an observer of one run can see, in order: a status written to the run store,
  a write that the store refused, a status handed to the broadcaster, a call to a
  provider (or to the normalizer).\<close>

datatype Event =
    Persisted SyncStatus
  | WriteFailed SyncStatus
  | Broadcasted SyncStatus
  | ProviderCall ProviderOp

text \<open>
  Modelled from the spec: the provider clients, the song normalizer and the search
  behind \<open>Song.GetIdByDatasource\<close> are collaborators whose code the engine only calls
  (section 6 of the specification).  \<open>Env\<close> fixes how each call ends; a successful write
  changes the playlists of the world.  \<open>uuid\<close> is the value of \<open>uuid.NewString()\<close>, and the
  last three fields are the parameters of the matcher.
\<close>

record Env =
  fetchResult :: "Datasource \<Rightarrow> string \<Rightarrow> unit outcome"
  clearResult :: "Datasource \<Rightarrow> string \<Rightarrow> unit outcome"
  addResult :: "Datasource \<Rightarrow> string \<Rightarrow> Song list \<Rightarrow> unit outcome"
  searchResult :: "Song \<Rightarrow> Datasource \<Rightarrow> string outcome"
  llmEnabled :: bool
  normalizeResult :: "Song list \<Rightarrow> Song list outcome"
  uuid :: string
  envLowerU :: "rune \<Rightarrow> rune"
  envStripU :: "runes \<Rightarrow> runes"
  envAlbumVar :: "Song \<Rightarrow> runes"

text \<open>
  The state a run works on: the run store with its clock, the broadcaster, the
  playlists at the providers, and the events so far.  \<open>writeFaults\<close> and \<open>readFaults\<close>
  script the store: the head says whether the next write (read) fails, and a script
  that has run out means success.
\<close>

record World =
  syncRunStore :: "string \<Rightarrow> SyncRun option"
  storeClock :: nat
  writeFaults :: "bool list"
  readFaults :: "bool list"
  broadcaster :: SyncStatusBroadcaster
  playlists :: "Datasource \<times> string \<Rightarrow> Song list"
  trace :: "Event list"

text \<open>
  Modelled from the spec: the run store (\<open>CreateSyncRun\<close>, \<open>UpdateSyncRun\<close>, \<open>GetSyncs\<close>)
  is not among the sources.  A write either fails and changes nothing, or stores the run
  under its run id with the timestamps of the store; an update of a run that the store
  does not hold stores nothing and reports no error.
\<close>

definition CreateSyncRun :: "World \<Rightarrow> SyncRun \<Rightarrow> World \<times> err option" where
  "CreateSyncRun w syncRun =
     (case writeFaults w of
        True # fs \<Rightarrow>
          (w\<lparr>writeFaults := fs, trace := trace w @ [WriteFailed (SyncStatus syncRun)]\<rparr>,
           Some (NewError ''run store: write failed''))
      | _ \<Rightarrow>
          (w\<lparr>writeFaults := tl (writeFaults w),
             syncRunStore := (syncRunStore w)(RunId syncRun \<mapsto>
                syncRun\<lparr>CreatedAt := storeClock w, UpdatedAt := storeClock w\<rparr>),
             storeClock := storeClock w + 1,
             trace := trace w @ [Persisted (SyncStatus syncRun)]\<rparr>,
           None))"

definition UpdateSyncRun :: "World \<Rightarrow> SyncRun \<Rightarrow> World \<times> err option" where
  "UpdateSyncRun w syncRun =
     (case writeFaults w of
        True # fs \<Rightarrow>
          (w\<lparr>writeFaults := fs, trace := trace w @ [WriteFailed (SyncStatus syncRun)]\<rparr>,
           Some (NewError ''run store: write failed''))
      | _ \<Rightarrow>
          (case syncRunStore w (RunId syncRun) of
             None \<Rightarrow> (w\<lparr>writeFaults := tl (writeFaults w)\<rparr>, None)
           | Some old \<Rightarrow>
               (w\<lparr>writeFaults := tl (writeFaults w),
                  syncRunStore := (syncRunStore w)(RunId syncRun \<mapsto>
                     syncRun\<lparr>CreatedAt := CreatedAt old, UpdatedAt := storeClock w\<rparr>),
                  storeClock := storeClock w + 1,
                  trace := trace w @ [Persisted (SyncStatus syncRun)]\<rparr>,
                None)))"

definition GetSyncs :: "World \<Rightarrow> string \<Rightarrow> World \<times> (err + SyncRun list)" where
  "GetSyncs w runId =
     (case readFaults w of
        True # fs \<Rightarrow> (w\<lparr>readFaults := fs\<rparr>, Inl (NewError ''run store: read failed''))
      | _ \<Rightarrow>
          (w\<lparr>readFaults := tl (readFaults w)\<rparr>,
           Inr (case syncRunStore w runId of None \<Rightarrow> [] | Some r \<Rightarrow> [r])))"

text \<open>The call \<open>myncerCtx.SyncStatusBroadcaster.Broadcast(run)\<close>.\<close>

definition publish :: "World \<Rightarrow> SyncRun \<Rightarrow> World" where
  "publish w syncRun =
     w\<lparr>broadcaster := fst (Broadcast (broadcaster w) syncRun),
       trace := trace w @ [Broadcasted (SyncStatus syncRun)]\<rparr>"

definition storeAndBroadcastSyncRun :: "World \<Rightarrow> SyncRun \<Rightarrow> bool \<Rightarrow> World \<times> (err + SyncRun)" where
  "storeAndBroadcastSyncRun w syncRun isCreate =
     (if isCreate then
        (case CreateSyncRun w syncRun of
           (w1, Some e) \<Rightarrow> (w1, Inl (WrappedError e ''failed to create sync run in database''))
         | (w1, None) \<Rightarrow>
             (case GetSyncs w1 (RunId syncRun) of
                (w2, Inl e) \<Rightarrow> (publish w2 syncRun, Inr syncRun)
              | (w2, Inr []) \<Rightarrow> (publish w2 syncRun, Inr syncRun)
              | (w2, Inr (refreshedSyncRun # _)) \<Rightarrow>
                  (publish w2 refreshedSyncRun, Inr refreshedSyncRun)))
      else
        (case UpdateSyncRun w syncRun of
           (w1, Some e) \<Rightarrow> (w1, Inl (WrappedError e ''failed to update sync run in database''))
         | (w1, None) \<Rightarrow>
             (case GetSyncs w1 (RunId syncRun) of
                (w2, Inl e) \<Rightarrow> (publish w2 syncRun, Inr syncRun)
              | (w2, Inr []) \<Rightarrow> (publish w2 syncRun, Inr syncRun)
              | (w2, Inr (refreshedSyncRun # _)) \<Rightarrow>
                  (publish w2 refreshedSyncRun, Inr refreshedSyncRun))))"

text \<open>\<open>getClient\<close>: the client of a datasource is named by the datasource.\<close>

definition getClient :: "Datasource \<Rightarrow> err + Datasource" where
  "getClient datasource =
     (case datasource of
        SPOTIFY \<Rightarrow> Inr SPOTIFY
      | YOUTUBE \<Rightarrow> Inr YOUTUBE
      | TIDAL \<Rightarrow> Inr TIDAL
      | DATASOURCE_UNSPECIFIED \<Rightarrow> Inl (NewError ''unsupported datasource''))"

definition called :: "World \<Rightarrow> ProviderOp \<Rightarrow> World" where
  "called w op = w\<lparr>trace := trace w @ [ProviderCall op]\<rparr>"

definition GetPlaylistSongs :: "Env \<Rightarrow> World \<Rightarrow> Datasource \<Rightarrow> string \<Rightarrow> World \<times> Song list outcome" where
  "GetPlaylistSongs env w client playlistId =
     (called w OpGetPlaylistSongs,
      case fetchResult env client playlistId of
        Ok _ \<Rightarrow> Ok (playlists w (client, playlistId))
      | Failed e \<Rightarrow> Failed e
      | Panicked \<Rightarrow> Panicked)"

definition ClearPlaylist :: "Env \<Rightarrow> World \<Rightarrow> Datasource \<Rightarrow> string \<Rightarrow> World \<times> unit outcome" where
  "ClearPlaylist env w client playlistId =
     (case clearResult env client playlistId of
        Ok _ \<Rightarrow> ((called w OpClearPlaylist)\<lparr>playlists := (playlists w)((client, playlistId) := [])\<rparr>,
                 Ok ())
      | Failed e \<Rightarrow> (called w OpClearPlaylist, Failed e)
      | Panicked \<Rightarrow> (called w OpClearPlaylist, Panicked))"

definition AddToPlaylist ::
  "Env \<Rightarrow> World \<Rightarrow> Datasource \<Rightarrow> string \<Rightarrow> Song list \<Rightarrow> World \<times> unit outcome" where
  "AddToPlaylist env w client playlistId songs =
     (case addResult env client playlistId songs of
        Ok _ \<Rightarrow> ((called w OpAddToPlaylist)\<lparr>playlists :=
                    (playlists w)((client, playlistId) := playlists w (client, playlistId) @ songs)\<rparr>,
                 Ok ())
      | Failed e \<Rightarrow> (called w OpAddToPlaylist, Failed e)
      | Panicked \<Rightarrow> (called w OpAddToPlaylist, Panicked))"

definition GetIdByDatasource :: "Env \<Rightarrow> World \<Rightarrow> Song \<Rightarrow> Datasource \<Rightarrow> World \<times> string outcome" where
  "GetIdByDatasource env w song datasource =
     (called w OpGetIdByDatasource, searchResult env song datasource)"

definition NormalizeSongs :: "Env \<Rightarrow> World \<Rightarrow> Song list \<Rightarrow> World \<times> Song list outcome" where
  "NormalizeSongs env w songs = (called w OpNormalizeSongs, normalizeResult env songs)"

text \<open>The song that \<open>getSearchedSongs\<close> builds for the destination; the fields it does
  not set have their zero value.\<close>

definition NewSong :: "Song \<Rightarrow> string \<Rightarrow> Song" where
  "NewSong song newDatasourceSongId =
     \<lparr>Name = Name song, ArtistName = ArtistName song, AlbumName = AlbumName song,
      SongDatasource = DATASOURCE_UNSPECIFIED, DatasourceSongId = newDatasourceSongId,
      Isrc = []\<rparr>"

text \<open>The loop of \<open>getSearchedSongs\<close>: a song whose identifier cannot be resolved is
  logged and skipped.\<close>

fun searchLoop ::
  "Env \<Rightarrow> Datasource \<Rightarrow> Song list \<Rightarrow> World \<Rightarrow> Song list \<Rightarrow> World \<times> Song list outcome" where
  "searchLoop env datasource r w [] = (w, Ok r)"
| "searchLoop env datasource r w (song # songs) =
     (case GetIdByDatasource env w song datasource of
        (w1, Panicked) \<Rightarrow> (w1, Panicked)
      | (w1, Failed e) \<Rightarrow> searchLoop env datasource r w1 songs
      | (w1, Ok newDatasourceSongId) \<Rightarrow>
          searchLoop env datasource (r @ [NewSong song newDatasourceSongId]) w1 songs)"

definition getSearchedSongs ::
  "Env \<Rightarrow> World \<Rightarrow> Song list \<Rightarrow> Datasource \<Rightarrow> World \<times> Song list outcome" where
  "getSearchedSongs env w songs datasource = searchLoop env datasource [] w songs"

text \<open>The idiom \<^verbatim>\<open>x, err := f(); if err != nil { return core.WrappedError(err, msg) }\<close>;
  a panic unwinds through it.\<close>

definition orWrap ::
  "World \<times> 'a outcome \<Rightarrow> string \<Rightarrow> (World \<Rightarrow> 'a \<Rightarrow> World \<times> 'b outcome) \<Rightarrow> World \<times> 'b outcome" where
  "orWrap r msg k =
     (case r of
        (w, Panicked) \<Rightarrow> (w, Panicked)
      | (w, Failed e) \<Rightarrow> (w, Failed (WrappedError e msg))
      | (w, Ok v) \<Rightarrow> k w v)"

definition runOneWaySync :: "Env \<Rightarrow> World \<Rightarrow> OneWaySync \<Rightarrow> World \<times> unit outcome" where
  "runOneWaySync env w sync =
     (case getClient (SourceDatasource (Source sync)) of
        Inl e \<Rightarrow> (w, Failed e)
      | Inr sourceClient \<Rightarrow>
     (case getClient (SourceDatasource (Destination sync)) of
        Inl e \<Rightarrow> (w, Failed e)
      | Inr destClient \<Rightarrow>
     orWrap (GetPlaylistSongs env w sourceClient (PlaylistId (Source sync)))
       ''failed to fetch source playlist'' (\<lambda>w sourceSongs.
     orWrap (if llmEnabled env then NormalizeSongs env w sourceSongs else (w, Ok sourceSongs))
       ''failed to normalize songs'' (\<lambda>w normalizedSongs.
     orWrap (getSearchedSongs env w normalizedSongs (SourceDatasource (Destination sync)))
       ''failed to get searched songs for destination datasource'' (\<lambda>w searchedSongs.
     orWrap (if OverwriteExisting sync
             then ClearPlaylist env w destClient (PlaylistId (Destination sync))
             else (w, Ok ()))
       ''failed to clear destination playlist'' (\<lambda>w _.
     orWrap (AddToPlaylist env w destClient (PlaylistId (Destination sync)) searchedSongs)
       ''failed to add songs to destination playlist'' (\<lambda>w _. (w, Ok ()))))))))"

text \<open>The first loop of \<open>runPlaylistMergeSync\<close>: a source that cannot be read is
  skipped.\<close>

fun collectLoop ::
  "Env \<Rightarrow> Song list \<Rightarrow> World \<Rightarrow> MusicSource list \<Rightarrow> World \<times> Song list outcome" where
  "collectLoop env allSongs w [] = (w, Ok allSongs)"
| "collectLoop env allSongs w (source # sources) =
     (case getClient (SourceDatasource source) of
        Inl e \<Rightarrow> (w, Failed (WrappedError e ''failed to get source client for datasource''))
      | Inr sourceClient \<Rightarrow>
          (case GetPlaylistSongs env w sourceClient (PlaylistId source) of
             (w1, Panicked) \<Rightarrow> (w1, Panicked)
           | (w1, Failed e) \<Rightarrow> collectLoop env allSongs w1 sources
           | (w1, Ok songs) \<Rightarrow> collectLoop env (allSongs @ songs) w1 sources))"

definition runPlaylistMergeSync :: "Env \<Rightarrow> World \<Rightarrow> PlaylistMergeSync \<Rightarrow> World \<times> unit outcome" where
  "runPlaylistMergeSync env w sync =
     (case collectLoop env [] w (Sources sync) of
        (w, Panicked) \<Rightarrow> (w, Panicked)
      | (w, Failed e) \<Rightarrow> (w, Failed e)
      | (w, Ok allSongs) \<Rightarrow>
     (case DeduplicateSongs (envLowerU env) (envStripU env) (envAlbumVar env) allSongs 90 of
        Inl e \<Rightarrow> (w, Failed (WrappedError e ''failed to deduplicate songs''))
      | Inr uniqueSongs \<Rightarrow>
     (case getClient (SourceDatasource (MergeDestination sync)) of
        Inl e \<Rightarrow> (w, Failed (WrappedError e ''failed to get destination client''))
      | Inr destClient \<Rightarrow>
     orWrap (if MergeOverwriteExisting sync
             then ClearPlaylist env w destClient (PlaylistId (MergeDestination sync))
             else (w, Ok ()))
       ''failed to clear destination playlist'' (\<lambda>w _.
     orWrap (getSearchedSongs env w uniqueSongs (SourceDatasource (MergeDestination sync)))
       ''failed to search for songs on destination platform'' (\<lambda>w searchedSongs.
     orWrap (AddToPlaylist env w destClient (PlaylistId (MergeDestination sync)) searchedSongs)
       ''failed to add songs to destination playlist'' (\<lambda>w _. (w, Ok ())))))))"

text \<open>Step 3 of \<open>RunSync\<close>: the switch over the variant of the sync.\<close>

definition runStrategy :: "Env \<Rightarrow> World \<Rightarrow> Sync \<Rightarrow> World \<times> unit outcome" where
  "runStrategy env w sync =
     (case GetSyncVariant sync of
        Sync_OneWaySync v \<Rightarrow> runOneWaySync env w v
      | Sync_PlaylistMergeSync v \<Rightarrow> runPlaylistMergeSync env w v
      | NoVariant \<Rightarrow> (w, Failed (NewError ''unreachable: unknown sync variant'')))"

text \<open>
  \<open>RunSync\<close>, third file of \<^verbatim>\<open>src/unnamed/part_003\<close> (lines 579 to 639), the revision that
  the specification follows.  \<open>RunSync_body\<close> is the function without its deferred call:
  it gives the world, the run that the variable \<open>syncRun\<close> points to when the body
  ends, and how the body ends: by returning an error or nil, or by a panic.
\<close>

definition RunSync_body :: "Env \<Rightarrow> World \<Rightarrow> Sync \<Rightarrow> World \<times> SyncRun \<times> err option outcome" where
  "RunSync_body env w sync =
     (let syncRun = \<lparr>SyncId = SyncIdOf sync, RunId = uuid env,
                     SyncStatus = SYNC_STATUS_PENDING, UnmatchedSongs = [],
                     CreatedAt = 0, UpdatedAt = 0\<rparr>
      in case storeAndBroadcastSyncRun w syncRun True of
           (w1, Inl e) \<Rightarrow>
             (w1, syncRun, Ok (Some (WrappedError e ''failed to store initial sync run'')))
         | (w1, Inr storedRun) \<Rightarrow>
             (let syncRun = storedRun\<lparr>SyncStatus := SYNC_STATUS_RUNNING\<rparr>
              in case storeAndBroadcastSyncRun w1 syncRun False of
                   (w2, Inl e) \<Rightarrow>
                     (w2, syncRun,
                      Ok (Some (WrappedError e ''failed to store running sync status'')))
                 | (w2, Inr storedRun) \<Rightarrow>
                     (let syncRun = storedRun
                      in case runStrategy env w2 sync of
                           (w3, Panicked) \<Rightarrow> (w3, syncRun, Panicked)
                         | (w3, Failed syncErr) \<Rightarrow>
                             (w3, syncRun\<lparr>SyncStatus := SYNC_STATUS_FAILED\<rparr>,
                              Ok (Some (WrappedError syncErr ''sync execution failed'')))
                         | (w3, Ok _) \<Rightarrow>
                             (w3, syncRun\<lparr>SyncStatus := SYNC_STATUS_COMPLETED\<rparr>, Ok None))))"

text \<open>
  The deferred function: after a panic, \<open>recover\<close> stops it, the status becomes FAILED
  and \<open>RunSync\<close> returns the zero value of its result, nil; then the run is stored and
  broadcast, and an error of the store is only logged.
\<close>

definition RunSync_deferred ::
  "World \<Rightarrow> SyncRun \<Rightarrow> err option outcome \<Rightarrow> World \<times> err option outcome" where
  "RunSync_deferred w syncRun ending =
     (let (syncRun, ending) =
            (case ending of
               Panicked \<Rightarrow> (syncRun\<lparr>SyncStatus := SYNC_STATUS_FAILED\<rparr>, Ok None)
             | _ \<Rightarrow> (syncRun, ending))
      in (fst (storeAndBroadcastSyncRun w syncRun False), ending))"

definition RunSync :: "Env \<Rightarrow> World \<Rightarrow> Sync \<Rightarrow> World \<times> err option outcome" where
  "RunSync env w sync =
     (case RunSync_body env w sync of (w1, syncRun, ending) \<Rightarrow> RunSync_deferred w1 syncRun ending)"

text \<open>The events that a call added to the trace, and the statuses written among them.\<close>

definition eventsSince :: "World \<Rightarrow> World \<Rightarrow> Event list" where
  "eventsSince w w' = drop (length (trace w)) (trace w')"

fun persistedStatuses :: "Event list \<Rightarrow> SyncStatus list" where
  "persistedStatuses [] = []"
| "persistedStatuses (Persisted s # es) = s # persistedStatuses es"
| "persistedStatuses (_ # es) = persistedStatuses es"

fun broadcastStatuses :: "Event list \<Rightarrow> SyncStatus list" where
  "broadcastStatuses [] = []"
| "broadcastStatuses (Broadcasted s # es) = s # broadcastStatuses es"
| "broadcastStatuses (_ # es) = broadcastStatuses es"

text \<open>No call to a provider before both PENDING and RUNNING have been written: \<open>p\<close> and
  \<open>r\<close> say whether they have been.\<close>

fun ioGuarded :: "bool \<Rightarrow> bool \<Rightarrow> Event list \<Rightarrow> bool" where
  "ioGuarded p r [] = True"
| "ioGuarded p r (Persisted s # es) =
     ioGuarded (p \<or> s = SYNC_STATUS_PENDING) (r \<or> s = SYNC_STATUS_RUNNING) es"
| "ioGuarded p r (ProviderCall op # es) = (p \<and> r \<and> ioGuarded p r es)"
| "ioGuarded p r (_ # es) = ioGuarded p r es"

text \<open>Every status written is handed to the broadcaster before anything else happens.\<close>

fun persistThenBroadcast :: "Event list \<Rightarrow> bool" where
  "persistThenBroadcast [] = True"
| "persistThenBroadcast [Persisted s] = False"
| "persistThenBroadcast (Persisted s # e # es) = (e = Broadcasted s \<and> persistThenBroadcast es)"
| "persistThenBroadcast (_ # es) = persistThenBroadcast es"

definition terminal :: "SyncStatus \<Rightarrow> bool" where
  "terminal s = (s = SYNC_STATUS_COMPLETED \<or> s = SYNC_STATUS_FAILED)"

text \<open>Two runs that differ at most in the timestamps of the store.\<close>

definition sameRun :: "SyncRun \<Rightarrow> SyncRun \<Rightarrow> bool" where
  "sameRun a b = (SyncId a = SyncId b \<and> RunId a = RunId b \<and> SyncStatus a = SyncStatus b
     \<and> UnmatchedSongs a = UnmatchedSongs b)"

fun providerEvent :: "Event \<Rightarrow> bool" where
  "providerEvent (ProviderCall op) = True"
| "providerEvent _ = False"

text \<open>A step of the strategy: it leaves the run store and the broadcaster alone and
  adds only provider calls to the trace.\<close>

definition ioStep :: "World \<Rightarrow> World \<Rightarrow> bool" where
  "ioStep w w' =
     (syncRunStore w' = syncRunStore w \<and> storeClock w' = storeClock w
      \<and> writeFaults w' = writeFaults w \<and> readFaults w' = readFaults w
      \<and> broadcaster w' = broadcaster w
      \<and> length (trace w) \<le> length (trace w')
      \<and> take (length (trace w)) (trace w') = trace w
      \<and> list_all providerEvent (drop (length (trace w)) (trace w')))"

text \<open>The songs of a list that resolve at the destination, as the destination will
  hold them, in the words of the specification: each song whose search succeeds,
  in order, with the identifier found.\<close>

definition resolvedSongs :: "Env \<Rightarrow> Datasource \<Rightarrow> Song list \<Rightarrow> Song list" where
  "resolvedSongs env datasource songs =
     concat (map (\<lambda>song. case searchResult env song datasource of
                            Ok newId \<Rightarrow> [NewSong song newId] | _ \<Rightarrow> []) songs)"

definition unresolvedSongs :: "Env \<Rightarrow> Datasource \<Rightarrow> Song list \<Rightarrow> Song list" where
  "unresolvedSongs env datasource songs =
     filter (\<lambda>song. case searchResult env song datasource of Failed e \<Rightarrow> True | _ \<Rightarrow> False) songs"

text \<open>Sample data: a one-way sync from a playlist of three songs, of which the one
  named b finds no match at the destination.\<close>

definition sampleEnv :: Env where
  "sampleEnv =
     \<lparr>fetchResult = (\<lambda>d p. Ok ()), clearResult = (\<lambda>d p. Ok ()),
      addResult = (\<lambda>d p s. Ok ()),
      searchResult = (\<lambda>song d. if Name song = str ''b'' then Failed (NewError ''no match'')
                                else Ok ''id''),
      llmEnabled = False, normalizeResult = (\<lambda>songs. Ok songs), uuid = ''r1'',
      envLowerU = id, envStripU = id, envAlbumVar = AlbumName\<rparr>"

definition panicEnv :: Env where
  "panicEnv = sampleEnv\<lparr>fetchResult := (\<lambda>d p. Panicked)\<rparr>"

definition sampleWorld :: "bool list \<Rightarrow> World" where
  "sampleWorld faults =
     \<lparr>syncRunStore = (\<lambda>runId. None), storeClock = 0, writeFaults = faults, readFaults = [],
      broadcaster = sampleBroadcaster,
      playlists = (\<lambda>k. [])((SPOTIFY, ''src'') := [songX, songZ, songY]),
      trace = []\<rparr>"

definition sampleSync :: Sync where
  "sampleSync = \<lparr>SyncIdOf = ''s1'', UserId = ''u1'',
     GetSyncVariant = Sync_OneWaySync
       \<lparr>Source = \<lparr>SourceDatasource = SPOTIFY, PlaylistId = ''src''\<rparr>,
        Destination = \<lparr>SourceDatasource = YOUTUBE, PlaylistId = ''dst''\<rparr>,
        OverwriteExisting = False\<rparr>\<rparr>"

text \<open>
  The earlier revision of \<open>RunSync\<close>, first file of \<^verbatim>\<open>src/unnamed/part_003\<close> (lines 21 to
  68): the run starts as RUNNING, there is no PENDING status and no deferred function,
  so a panic of the strategy leaves \<open>RunSync\<close> as a panic.  Its \<open>storeSyncRun\<close> does what
  \<open>storeAndBroadcastSyncRun\<close> does.
\<close>

definition validateSync :: "Sync \<Rightarrow> err option" where
  "validateSync sync =
     (case GetSyncVariant sync of
        Sync_OneWaySync v \<Rightarrow> None
      | Sync_PlaylistMergeSync v \<Rightarrow> None
      | NoVariant \<Rightarrow> Some (NewError ''unknown sync variant''))"

definition getSyncRun :: "Env \<Rightarrow> Sync \<Rightarrow> SyncRun" where
  "getSyncRun env sync =
     \<lparr>SyncId = SyncIdOf sync, RunId = uuid env, SyncStatus = SYNC_STATUS_RUNNING,
      UnmatchedSongs = [], CreatedAt = 0, UpdatedAt = 0\<rparr>"

definition RunSync_part003_first :: "Env \<Rightarrow> World \<Rightarrow> Sync \<Rightarrow> World \<times> err option outcome" where
  "RunSync_part003_first env w sync =
     (case validateSync sync of
        Some e \<Rightarrow> (w, Ok (Some (WrappedError e ''failed to validate sync'')))
      | None \<Rightarrow>
     (case storeAndBroadcastSyncRun w (getSyncRun env sync) True of
        (w1, Inl e) \<Rightarrow> (w1, Ok (Some (WrappedError e ''failed to store initial sync run'')))
      | (w1, Inr currentSyncRun) \<Rightarrow>
     (case runStrategy env w1 sync of
        (w2, Panicked) \<Rightarrow> (w2, Panicked)
      | (w2, Failed syncErr) \<Rightarrow>
          (fst (storeAndBroadcastSyncRun w2
                  (currentSyncRun\<lparr>SyncStatus := SYNC_STATUS_FAILED\<rparr>) False),
           Ok (Some (WrappedError syncErr ''sync execution failed'')))
      | (w2, Ok _) \<Rightarrow>
          (fst (storeAndBroadcastSyncRun w2
                  (currentSyncRun\<lparr>SyncStatus := SYNC_STATUS_COMPLETED\<rparr>) False),
           Ok None))))"

section \<open>Properties of the cleaner\<close>

text \<open>Every match of the four expressions consumes at least one rune, so the rule of
  \<open>ReplaceAllString\<close> for empty matches never applies to them.\<close>

lemma rests_StarG_length: "t \<in> set (rests (StarG p) s) \<Longrightarrow> length t \<le> length s"
  by (induction s) (auto split: if_splits)

lemma rests_StarL_length: "t \<in> set (rests (StarL p) s) \<Longrightarrow> length t \<le> length s"
  by (induction s) (auto split: if_splits)

lemma rests_minLen: "t \<in> set (rests r s) \<Longrightarrow> length t + minLen r \<le> length s"
proof (induction r arbitrary: s t)
  case (Cls p)
  then show ?case by (cases s) (auto split: if_splits)
next
  case Eps
  then show ?case by simp
next
  case (Cat a b)
  from Cat.prems obtain u where u: "u \<in> set (rests a s)" "t \<in> set (rests b u)" by auto
  from Cat.IH(1)[OF u(1)] Cat.IH(2)[OF u(2)] show ?case by simp
next
  case (Alt a b)
  then show ?case by (auto simp: min_def dest!: Alt.IH)
next
  case (StarG p)
  then show ?case by (simp add: rests_StarG_length)
next
  case (StarL p)
  then show ?case by (simp add: rests_StarL_length)
qed

lemma expressions_consume:
  "0 < minLen featRegex" "0 < minLen tagsRegex" "0 < minLen nonAlphanumericRegex"
  "0 < minLen extraWhitespaceRegex"
  by (simp_all add: featRegex_def tagsRegex_def nonAlphanumericRegex_def
        extraWhitespaceRegex_def plus_def opt_def)

lemma no_empty_match:
  assumes "0 < minLen r" "t \<in> set (rests r s)"
  shows "length t < length s"
  using rests_minLen[OF assms(2)] assms(1) by simp


lemma rests_StarG: "\<exists>ts. rests (StarG p) s = dropWhile p s # ts"
proof (induction s)
  case Nil
  then show ?case by simp
next
  case (Cons c cs)
  then show ?case by (cases "p c") auto
qed

lemma ReplaceAllString_plus:
  "ReplaceAllString (plus p) (c # cs) repl =
     (if p c then repl @ ReplaceAllString (plus p) (dropWhile p cs) repl
      else c # ReplaceAllString (plus p) cs repl)"
proof (cases "p c")
  case True
  obtain ts where ts: "rests (StarG p) cs = dropWhile p cs # ts"
    using rests_StarG by blast
  have len: "length (dropWhile p cs) < Suc (length cs)"
    by (simp add: length_dropWhile_le le_imp_less_Suc)
  from True ts len show ?thesis by (simp add: plus_def)
next
  case False
  then show ?thesis by (simp add: plus_def)
qed

lemma ReplaceAllString_plus_none:
  "list_all (\<lambda>c. \<not> p c) s \<Longrightarrow> ReplaceAllString (plus p) s repl = s"
  by (induction s) (simp_all add: ReplaceAllString_plus del: ReplaceAllString.simps(2))

lemma ReplaceAllString_no_start:
  assumes r: "\<And>c cs. \<not> q c \<Longrightarrow> rests r (c # cs) = []"
  shows "list_all (\<lambda>c. \<not> q c) s \<Longrightarrow> ReplaceAllString r s repl = s"
  by (induction s) (simp_all add: r)

lemma featRegex_start: "c \<noteq> 91 \<and> c \<noteq> 40 \<Longrightarrow> rests featRegex (c # cs) = []"
  by (simp add: featRegex_def)

lemma tagsRegex_start: "c \<noteq> 91 \<and> c \<noteq> 40 \<Longrightarrow> rests tagsRegex (c # cs) = []"
  by (simp add: tagsRegex_def)

lemma ReplaceAllString_plus_set:
  "set (ReplaceAllString (plus p) s repl) \<subseteq> {c \<in> set s. \<not> p c} \<union> set repl"
proof (induction s rule: length_induct)
  case (1 s)
  show ?case
  proof (cases s)
    case Nil
    then show ?thesis by simp
  next
    case (Cons c cs)
    have d: "length (dropWhile p cs) < length s"
      using Cons by (simp add: length_dropWhile_le le_imp_less_Suc)
    have sub: "set (dropWhile p cs) \<subseteq> set cs"
      by (simp add: set_dropWhileD subsetI)
    from 1 d have "set (ReplaceAllString (plus p) (dropWhile p cs) repl)
        \<subseteq> {c \<in> set (dropWhile p cs). \<not> p c} \<union> set repl" by blast
    moreover from 1 Cons have "set (ReplaceAllString (plus p) cs repl) \<subseteq> {c \<in> set cs. \<not> p c} \<union> set repl"
      by simp
    ultimately show ?thesis using Cons sub
      by (auto simp add: ReplaceAllString_plus simp del: ReplaceAllString.simps(2))
  qed
qed


lemma singleSpaced_Cons: "singleSpaced (c # s) = ((s = [] \<or> \<not> (c = 32 \<and> hd s = 32)) \<and> singleSpaced s)"
  by (cases s) auto

lemma singleSpaced_prefix: "singleSpaced (xs @ ys) \<Longrightarrow> singleSpaced xs"
  by (induction xs rule: singleSpaced.induct) auto

lemma singleSpaced_dropWhile: "singleSpaced s \<Longrightarrow> singleSpaced (dropWhile p s)"
  by (induction s) (auto simp: singleSpaced_Cons)

lemma collapse_shape:
  "list_all (\<lambda>c. lowerAlnum c \<or> reSpace c) s \<Longrightarrow>
     list_all (\<lambda>c. lowerAlnum c \<or> c = 32) (ReplaceAllString extraWhitespaceRegex s [32])
     \<and> singleSpaced (ReplaceAllString extraWhitespaceRegex s [32])
     \<and> (s \<noteq> [] \<and> \<not> reSpace (hd s) \<longrightarrow>
           hd (ReplaceAllString extraWhitespaceRegex s [32]) = hd s
           \<and> ReplaceAllString extraWhitespaceRegex s [32] \<noteq> [])"
proof (induction s rule: length_induct)
  case (1 s)
  let ?R = "\<lambda>s. ReplaceAllString (plus reSpace) s [32]"
  show ?case
  proof (cases s)
    case Nil
    then show ?thesis by simp
  next
    case (Cons c cs)
    show ?thesis
    proof (cases "reSpace c")
      case True
      let ?t = "dropWhile reSpace cs"
      have len: "length ?t < length s" using Cons
        by (simp add: length_dropWhile_le le_imp_less_Suc)
      have all: "list_all (\<lambda>c. lowerAlnum c \<or> reSpace c) ?t"
        using "1.prems" Cons by (auto simp: list_all_iff dest: set_dropWhileD)
      from 1 len all have ih:
        "list_all (\<lambda>c. lowerAlnum c \<or> c = 32) (?R ?t)" "singleSpaced (?R ?t)"
        "?t \<noteq> [] \<and> \<not> reSpace (hd ?t) \<longrightarrow> hd (?R ?t) = hd ?t \<and> ?R ?t \<noteq> []"
        unfolding extraWhitespaceRegex_def by blast+
      have eq: "?R s = 32 # ?R ?t" using Cons True
        by (simp add: ReplaceAllString_plus del: ReplaceAllString.simps(2))
      have nxt: "?R ?t = [] \<or> hd (?R ?t) \<noteq> 32"
      proof (cases "?t = []")
        case True
        show ?thesis unfolding True by simp
      next
        case False
        then have "\<not> reSpace (hd ?t)" by (rule hd_dropWhile)
        with False ih(3) have "hd (?R ?t) = hd ?t" by simp
        with \<open>\<not> reSpace (hd ?t)\<close> show ?thesis by (auto simp: reSpace_def)
      qed
      show ?thesis unfolding extraWhitespaceRegex_def eq
        using ih(1,2) nxt True Cons by (auto simp: singleSpaced_Cons)
    next
      case False
      have len: "length cs < length s" using Cons by simp
      have all: "list_all (\<lambda>c. lowerAlnum c \<or> reSpace c) cs"
        using "1.prems" Cons by simp
      from 1 len all have ih:
        "list_all (\<lambda>c. lowerAlnum c \<or> c = 32) (?R cs)" "singleSpaced (?R cs)"
        unfolding extraWhitespaceRegex_def by blast+
      have eq: "?R s = c # ?R cs" using Cons False
        by (simp add: ReplaceAllString_plus del: ReplaceAllString.simps(2))
      have c: "lowerAlnum c" "c \<noteq> 32" using "1.prems" Cons False by (auto simp: reSpace_def)
      show ?thesis unfolding extraWhitespaceRegex_def eq
        using ih c Cons False by (auto simp: singleSpaced_Cons)
    qed
  qed
qed


lemma strip_shape:
  "list_all (\<lambda>c. lowerAlnum c \<or> reSpace c) (ReplaceAllString nonAlphanumericRegex s [32])"
proof -
  have "set (ReplaceAllString nonAlphanumericRegex s [32])
      \<subseteq> {c \<in> set s. \<not> \<not> (lowerAlnum c \<or> reSpace c)} \<union> set [32]"
    unfolding nonAlphanumericRegex_def by (rule ReplaceAllString_plus_set)
  then show ?thesis by (auto simp: list_all_iff reSpace_def)
qed

lemma collapse_fixed:
  "list_all (\<lambda>c. lowerAlnum c \<or> c = 32) s \<Longrightarrow> singleSpaced s \<Longrightarrow>
     ReplaceAllString extraWhitespaceRegex s [32] = s"
proof (induction s)
  case Nil
  then show ?case by simp
next
  case (Cons c cs)
  have ih: "ReplaceAllString (plus reSpace) cs [32] = cs"
    using Cons by (simp add: singleSpaced_Cons extraWhitespaceRegex_def)
  show ?case
  proof (cases "c = 32")
    case True
    have "cs = [] \<or> \<not> reSpace (hd cs)"
    proof (cases cs)
      case Nil
      then show ?thesis by simp
    next
      case (Cons d ds)
      with Cons.prems True \<open>cs = d # ds\<close> have "lowerAlnum d" "d \<noteq> 32" by auto
      then have "\<not> reSpace d" by (auto simp: reSpace_def lowerAlnum_def)
      with Cons show ?thesis by simp
    qed
    then have "dropWhile reSpace cs = cs" by (cases cs) auto
    with True ih show ?thesis
      by (simp add: extraWhitespaceRegex_def ReplaceAllString_plus reSpace_def
               del: ReplaceAllString.simps(2))
  next
    case False
    with Cons.prems have "\<not> reSpace c" by (auto simp: reSpace_def lowerAlnum_def)
    with ih show ?thesis
      by (simp add: extraWhitespaceRegex_def ReplaceAllString_plus del: ReplaceAllString.simps(2))
  qed
qed

lemma TrimSpace_parts: "\<exists>a b. s = a @ TrimSpace s @ b"
proof -
  let ?y = "dropWhile isSpace s"
  have 1: "s = takeWhile isSpace s @ ?y" by simp
  have "?y = rev (takeWhile isSpace (rev ?y) @ dropWhile isSpace (rev ?y))"
    by (simp only: takeWhile_dropWhile_id rev_rev_ident)
  then have 2: "?y = TrimSpace s @ rev (takeWhile isSpace (rev ?y))"
    by (simp only: rev_append TrimSpace_def)
  from 1 2 show ?thesis by metis
qed

lemma TrimSpace_ends:
  "TrimSpace s = [] \<or> (\<not> isSpace (hd (TrimSpace s)) \<and> \<not> isSpace (last (TrimSpace s)))"
proof (cases "TrimSpace s = []")
  case True
  then show ?thesis by simp
next
  case False
  let ?y = "dropWhile isSpace s"
  let ?z = "dropWhile isSpace (rev ?y)"
  have z: "?z \<noteq> []" using False by (simp add: TrimSpace_def)
  then have hz: "\<not> isSpace (hd ?z)" by (rule hd_dropWhile)
  have y: "?y \<noteq> []"
  proof
    assume e: "?y = []"
    show False using z unfolding e by simp
  qed
  then have hy: "\<not> isSpace (hd ?y)" by (rule hd_dropWhile)
  have "rev ?y = takeWhile isSpace (rev ?y) @ ?z" by simp
  then have "last (rev ?y) = last ?z" using z by (metis last_appendR)
  then have lz: "last ?z = hd ?y" using y by (simp add: last_rev)
  have "hd (TrimSpace s) = last ?z" "last (TrimSpace s) = hd ?z"
    using z by (simp_all add: TrimSpace_def hd_rev last_rev)
  with hz hy lz show ?thesis by simp
qed

lemma TrimSpace_fixed:
  "s = [] \<or> (\<not> isSpace (hd s) \<and> \<not> isSpace (last s)) \<Longrightarrow> TrimSpace s = s"
proof (cases "s = []")
  case True
  then show ?thesis by (simp add: TrimSpace_def)
next
  case False
  assume "s = [] \<or> (\<not> isSpace (hd s) \<and> \<not> isSpace (last s))"
  with False have h: "\<not> isSpace (hd s)" and l: "\<not> isSpace (last s)" by auto
  from False h have 1: "dropWhile isSpace s = s" by (cases s) auto
  from False l have 2: "dropWhile isSpace (rev s) = rev s"
    by (cases "rev s") (auto simp: last_rev[symmetric])
  show ?thesis by (simp add: TrimSpace_def 1 2)
qed


lemma lowerAlnum_not_space: "lowerAlnum c \<Longrightarrow> \<not> isSpace c"
  by (auto simp: lowerAlnum_def isSpace_def)

lemma singleSpaced_suffix: "singleSpaced (xs @ ys) \<Longrightarrow> singleSpaced ys"
  by (induction xs) (auto simp: singleSpaced_Cons)

lemma Clean_shape: "cleanShape (Clean lowerU stripU s)"
proof -
  define s4 where "s4 = ReplaceAllString tagsRegex (ReplaceAllString featRegex
      (removeDiacritics stripU (ToLower lowerU s)) []) []"
  define s6 where "s6 = ReplaceAllString extraWhitespaceRegex
      (ReplaceAllString nonAlphanumericRegex s4 [32]) [32]"
  have c: "Clean lowerU stripU s = TrimSpace s6"
    by (simp add: Clean_def s6_def s4_def)
  have six: "list_all (\<lambda>c. lowerAlnum c \<or> c = 32) s6" "singleSpaced s6"
    unfolding s6_def using collapse_shape[OF strip_shape[of s4]] by blast+
  obtain a b where ab: "s6 = a @ TrimSpace s6 @ b"
    using TrimSpace_parts by blast
  have all: "list_all (\<lambda>c. lowerAlnum c \<or> c = 32) (TrimSpace s6)"
    using six(1) ab by (metis list_all_append)
  have "singleSpaced (a @ TrimSpace s6 @ b)" using six(2) ab by simp
  then have "singleSpaced (TrimSpace s6 @ b)" by (rule singleSpaced_suffix)
  then have ss: "singleSpaced (TrimSpace s6)" by (rule singleSpaced_prefix)
  have ends: "TrimSpace s6 = [] \<or> (hd (TrimSpace s6) \<noteq> 32 \<and> last (TrimSpace s6) \<noteq> 32)"
    using TrimSpace_ends[of s6] by (auto simp: isSpace_def)
  show ?thesis unfolding c cleanShape_def using all ss ends by auto
qed

lemma Clean_fixed:
  assumes "cleanShape s"
  shows "Clean lowerU stripU s = s"
proof -
  from assms have all: "list_all (\<lambda>c. lowerAlnum c \<or> c = 32) s" and ss: "singleSpaced s"
    and ends: "s = [] \<or> (hd s \<noteq> 32 \<and> last s \<noteq> 32)"
    by (auto simp: cleanShape_def split: if_splits)
  have 1: "ToLower lowerU s = s"
    unfolding ToLower_def using all
    by (intro map_idI) (auto simp: list_all_iff lowerAlnum_def)
  have ascii: "list_all (\<lambda>c. c < 128) s"
    using all by (auto simp: list_all_iff lowerAlnum_def)
  then have 2: "removeDiacritics stripU s = s"
    by (simp add: removeDiacritics_def)
  have nb: "list_all (\<lambda>c. \<not> \<not> (c \<noteq> 91 \<and> c \<noteq> 40)) s"
    using all by (auto simp: list_all_iff lowerAlnum_def)
  have 3: "ReplaceAllString featRegex s [] = s"
    by (rule ReplaceAllString_no_start[where q = "\<lambda>c. \<not> (c \<noteq> 91 \<and> c \<noteq> 40)", OF _ nb])
       (simp add: featRegex_start)
  have 4: "ReplaceAllString tagsRegex s [] = s"
    by (rule ReplaceAllString_no_start[where q = "\<lambda>c. \<not> (c \<noteq> 91 \<and> c \<noteq> 40)", OF _ nb])
       (simp add: tagsRegex_start)
  have "list_all (\<lambda>c. \<not> \<not> (lowerAlnum c \<or> reSpace c)) s"
    using all by (auto simp: list_all_iff reSpace_def)
  then have 5: "ReplaceAllString nonAlphanumericRegex s [32] = s"
    unfolding nonAlphanumericRegex_def by (rule ReplaceAllString_plus_none)
  have 6: "ReplaceAllString extraWhitespaceRegex s [32] = s"
    using all ss by (rule collapse_fixed)
  have "s = [] \<or> (\<not> isSpace (hd s) \<and> \<not> isSpace (last s))"
  proof (cases "s = []")
    case True
    then show ?thesis by simp
  next
    case False
    with all have "lowerAlnum (hd s) \<or> hd s = 32" "lowerAlnum (last s) \<or> last s = 32"
      by (auto simp: list_all_iff)
    with ends False show ?thesis by (auto dest: lowerAlnum_not_space)
  qed
  then have 7: "TrimSpace s = s" by (rule TrimSpace_fixed)
  show ?thesis by (simp add: Clean_def 1 2 3 4 5 6 7)
qed


subsection \<open>Symmetry of the distance and of the word-set ratio\<close>

lemma LevenshteinDistance_Nil2: "LevenshteinDistance s [] = length s"
  by (cases s) simp_all

lemma LevenshteinDistance_sym: "LevenshteinDistance s t = LevenshteinDistance t s"
proof (induction s t rule: LevenshteinDistance.induct)
  case (1 t)
  then show ?case by (simp add: LevenshteinDistance_Nil2)
next
  case (2 a s)
  then show ?case by simp
next
  case (3 a s b t)
  then show ?case by (simp add: min.commute min.left_commute eq_commute[of a b])
qed

lemma normalizedLevenshtein_sym: "normalizedLevenshtein s t = normalizedLevenshtein t s"
  by (simp add: normalizedLevenshtein_def LevenshteinDistance_sym[of s t] max.commute)

lemma filter_mem_Int: "Set.filter (\<lambda>w. w \<in> B) A = A \<inter> B"
  by auto

lemma tokenSetRatio_sym: "tokenSetRatio s t = tokenSetRatio t s"
  by (simp add: tokenSetRatio_def Let_def filter_mem_Int Int_commute Un_commute disj_commute conj_commute)

subsection \<open>The loop of the deduplicator\<close>

lemma isDuplicate_iff:
  "isDuplicate lowerU stripU albumVar thr x us
     = (\<not> list_all (\<lambda>u. CalculateSimilarity lowerU stripU albumVar x u < thr) us)"
  by (induction us) (auto simp: AreDuplicates_def)

lemma dedupLoop_snoc:
  "dedupLoop lowerU stripU albumVar thr acc (xs @ [x]) =
     (if isDuplicate lowerU stripU albumVar thr x (dedupLoop lowerU stripU albumVar thr acc xs)
      then dedupLoop lowerU stripU albumVar thr acc xs
      else dedupLoop lowerU stripU albumVar thr acc xs @ [x])"
  by (induction xs arbitrary: acc) simp_all




lemma dedupLoop_covers:
  "x \<in> set xs \<Longrightarrow>
     \<exists>u \<in> set (dedupLoop lowerU stripU albumVar thr [] xs).
        u = x \<or> CalculateSimilarity lowerU stripU albumVar x u \<ge> thr"
proof (induction xs rule: rev_induct)
  case Nil
  then show ?case by simp
next
  case (snoc y ys)
  show ?case
  proof (cases "x = y")
    case True
    then show ?thesis
      by (auto simp: dedupLoop_snoc isDuplicate_iff list_all_iff not_less)
  next
    case False
    with snoc show ?thesis by (auto simp: dedupLoop_snoc)
  qed
qed


subsection \<open>The component scores\<close>







lemma Clean_literal:
  "Clean lowerU stripU [] = []" "Clean lowerU stripU [97] = [97]" "Clean lowerU stripU [98] = [98]"
  "Clean lowerU stripU [120] = [120]" "Clean lowerU stripU [121] = [121]"
  by (rule Clean_fixed, simp add: cleanShape_def lowerAlnum_def)+

lemma scores_XY:
  "titleScore lowerU stripU songX songY = 100"
  "artistScore lowerU stripU songX songY = 0"
  "albumScore lowerU stripU songX songY = 100"
  by (simp_all add: titleScore_def artistScore_def albumScore_def songX_def songY_def str_def
        Clean_literal normalizedLevenshtein_def tokenSetRatio_def Fields_def isSpace_def
        ToSet_def byteLen_def runeLen_def Let_def)

section \<open>Properties of the request validation\<close>







section \<open>Properties of the broadcaster\<close>

lemma broadcastLoop_effect:
  assumes "distinct subs"
  shows "subscribers (fst (broadcastLoop b v subs)) = subscribers b
     \<and> nextChan (fst (broadcastLoop b v subs)) = nextChan b
     \<and> (\<forall>a. channels (fst (broadcastLoop b v subs)) a =
            (if a \<in> set subs then map_option (delivered v) (channels b a) else channels b a))
     \<and> snd (broadcastLoop b v subs) =
          filter (\<lambda>a. case channels b a of None \<Rightarrow> False
                      | Some c \<Rightarrow> \<not> length (buffer c) < capacity c) subs"
  using assms
proof (induction subs arbitrary: b)
  case Nil
  then show ?case by simp
next
  case (Cons ch rest)
  then have d: "distinct rest" and n: "ch \<notin> set rest" by auto
  show ?case
  proof (cases "channels b ch")
    case None
    with Cons.IH[OF d, of b] n show ?thesis by auto
  next
    case (Some c)
    show ?thesis
    proof (cases "length (buffer c) < capacity c")
      case True
      let ?b1 = "b\<lparr>channels := (channels b)(ch \<mapsto> c\<lparr>buffer := buffer c @ [v]\<rparr>)\<rparr>"
      have step: "broadcastLoop b v (ch # rest) = broadcastLoop ?b1 v rest"
        using Some True by (simp add: chanSend_def)
      have same: "\<And>a. a \<in> set rest \<Longrightarrow> channels ?b1 a = channels b a"
        using n by auto
      have f: "filter (\<lambda>a. case channels ?b1 a of None \<Rightarrow> False
                      | Some c \<Rightarrow> \<not> length (buffer c) < capacity c) rest
          = filter (\<lambda>a. case channels b a of None \<Rightarrow> False
                      | Some c \<Rightarrow> \<not> length (buffer c) < capacity c) rest"
        by (rule filter_cong) (use n in auto)
      show ?thesis
        unfolding step using Cons.IH[OF d, of ?b1] n Some True f
        by (auto simp: delivered_def)
    next
      case False
      have step: "broadcastLoop b v (ch # rest) =
          (fst (broadcastLoop b v rest), ch # snd (broadcastLoop b v rest))"
        using Some False by (simp add: chanSend_def split: prod.splits)
      show ?thesis
        unfolding step using Cons.IH[OF d, of b] n Some False
        by (auto simp: delivered_def)
    qed
  qed
qed


lemma registryOk_New: "registryOk NewSyncStatusBroadcaster"
  by (simp add: registryOk_def NewSyncStatusBroadcaster_def)

lemma registryOk_Subscribe:
  assumes "registryOk b"
  shows "registryOk (fst (Subscribe b syncId))"
proof -
  let ?n = "nextChan b"
  let ?old = "case subscribers b syncId of None \<Rightarrow> [] | Some l \<Rightarrow> l"
  have sub: "subscribers (fst (Subscribe b syncId)) = (subscribers b)(syncId \<mapsto> ?old @ [?n])"
    by (auto simp: Subscribe_def Let_def fun_eq_iff split: option.splits)
  have ch: "channels (fst (Subscribe b syncId))
      = (channels b)(?n \<mapsto> \<lparr>buffer = [], capacity = 10\<rparr>)"
    by (simp add: Subscribe_def Let_def)
  have nx: "nextChan (fst (Subscribe b syncId)) = Suc ?n"
    by (simp add: Subscribe_def Let_def)
  have old: "distinct ?old \<and> (\<forall>a \<in> set ?old. a < ?n)"
    using assms by (auto simp: registryOk_def split: option.splits)
  show ?thesis
    unfolding registryOk_def sub ch nx
  proof (intro allI impI)
    fix k subs
    assume a: "((subscribers b)(syncId \<mapsto> ?old @ [?n])) k = Some subs"
    show "distinct subs \<and> (\<forall>a\<in>set subs. a < Suc ?n)"
    proof (cases "k = syncId")
      case True
      with a have "subs = ?old @ [?n]" by simp
      with old show ?thesis by auto
    next
      case False
      with a have "subscribers b k = Some subs" by simp
      with assms show ?thesis by (auto simp: registryOk_def less_Suc_eq)
    qed
  qed
qed

lemma Broadcast_effect:
  assumes "registryOk b"
  shows "subscribers (fst (Broadcast b v)) = subscribers b
     \<and> nextChan (fst (Broadcast b v)) = nextChan b
     \<and> (\<forall>a. channels (fst (Broadcast b v)) a =
            (if registeredUnder b (SyncId v) a then map_option (delivered v) (channels b a)
             else channels b a))
     \<and> (\<forall>a. a \<in> set (snd (Broadcast b v)) \<longleftrightarrow>
            registeredUnder b (SyncId v) a
            \<and> (\<exists>c. channels b a = Some c \<and> \<not> length (buffer c) < capacity c))"
proof (cases "subscribers b (SyncId v)")
  case None
  then show ?thesis by (simp add: Broadcast_def registeredUnder_def)
next
  case (Some subs)
  with assms have d: "distinct subs" by (auto simp: registryOk_def)
  have B: "Broadcast b v = broadcastLoop b v subs"
    using Some by (simp add: Broadcast_def)
  show ?thesis
    unfolding B using broadcastLoop_effect[OF d, of b v] Some
    by (auto simp: registeredUnder_def split: option.splits)
qed

lemma registryOk_Broadcast:
  assumes "registryOk b"
  shows "registryOk (fst (Broadcast b v))"
  using assms Broadcast_effect[OF assms, of v]
  unfolding registryOk_def by (auto split: if_splits)

lemma sample_registryOk: "registryOk sampleBroadcaster"
  by (auto simp: registryOk_def sampleBroadcaster_def split: if_splits)

lemma registryOk_Unsubscribe:
  assumes "registryOk b"
  shows "registryOk (Unsubscribe b syncId ch)"
proof -
  let ?subs = "case subscribers b syncId of None \<Rightarrow> [] | Some l \<Rightarrow> l"
  have old: "distinct ?subs \<and> (\<forall>a \<in> set ?subs. a < nextChan b)"
    using assms by (auto simp: registryOk_def split: option.splits)
  have rest: "\<And>k l. subscribers b k = Some l \<Longrightarrow> distinct l \<and> (\<forall>a \<in> set l. a < nextChan b)"
    using assms by (auto simp: registryOk_def)
  have nx: "nextChan (Unsubscribe b syncId ch) = nextChan b"
    by (simp add: Unsubscribe_def Let_def)
  have sub: "\<And>k l. subscribers (Unsubscribe b syncId ch) k = Some l \<Longrightarrow>
      (k \<noteq> syncId \<and> subscribers b k = Some l) \<or> (k = syncId \<and> set l \<subseteq> set ?subs \<and> distinct l)"
    using old
    by (auto simp: Unsubscribe_def Let_def split: if_splits option.splits dest: notin_set_remove1)
  show ?thesis
    unfolding registryOk_def nx
  proof (intro allI impI)
    fix k l
    assume "subscribers (Unsubscribe b syncId ch) k = Some l"
    from sub[OF this] show "distinct l \<and> (\<forall>a \<in> set l. a < nextChan b)"
      using rest old by blast
  qed
qed

lemma broadcastLoop_registry:
  "subscribers (fst (broadcastLoop b v subs)) = subscribers b
   \<and> nextChan (fst (broadcastLoop b v subs)) = nextChan b"
  by (induction subs arbitrary: b) (auto simp: case_prod_beta split: option.splits)

lemma broadcastLoop_buffers:
  "channels (fst (broadcastLoop b v subs)) a =
     map_option (\<lambda>c. c\<lparr>buffer := buffer c
        @ replicate (min (count_list subs a) (capacity c - length (buffer c))) v\<rparr>)
       (channels b a)"
proof (induction subs arbitrary: b)
  case Nil
  then show ?case by (cases "channels b a") simp_all
next
  case (Cons ch rest)
  show ?case
  proof (cases "channels b ch")
    case None
    then show ?thesis using Cons[of b] by (cases "a = ch") simp_all
  next
    case (Some c)
    show ?thesis
    proof (cases "length (buffer c) < capacity c")
      case True
      let ?b1 = "b\<lparr>channels := (channels b)(ch \<mapsto> c\<lparr>buffer := buffer c @ [v]\<rparr>)\<rparr>"
      have step: "broadcastLoop b v (ch # rest) = broadcastLoop ?b1 v rest"
        using Some True by (simp add: chanSend_def)
      show ?thesis
      proof (cases "a = ch")
        case True
        have m: "min (Suc (count_list rest ch)) (capacity c - length (buffer c))
            = Suc (min (count_list rest ch) (capacity c - Suc (length (buffer c))))"
          using \<open>length (buffer c) < capacity c\<close> by arith
        show ?thesis
          unfolding step using Cons[of ?b1] Some True
          by (simp add: m replicate_app_Cons_same)
      next
        case False
        then show ?thesis
          unfolding step using Cons[of ?b1] by simp
      qed
    next
      case False
      have step: "fst (broadcastLoop b v (ch # rest)) = fst (broadcastLoop b v rest)"
        using Some False by (simp add: chanSend_def split: prod.splits)
      show ?thesis
        unfolding step using Cons[of b] Some False
        by (cases "a = ch") simp_all
    qed
  qed
qed

lemma Broadcast_buffers:
  "subscribers (fst (Broadcast b v)) = subscribers b
   \<and> channels (fst (Broadcast b v)) a =
     map_option (\<lambda>c. c\<lparr>buffer := buffer c
        @ replicate (min (timesRegistered b (SyncId v) a) (capacity c - length (buffer c))) v\<rparr>)
       (channels b a)"
proof (cases "subscribers b (SyncId v)")
  case None
  then show ?thesis
    by (cases "channels b a") (simp_all add: Broadcast_def timesRegistered_def)
next
  case (Some subs)
  then show ?thesis
    using broadcastLoop_buffers[of b v subs a] broadcastLoop_registry[of b v subs]
    by (simp add: Broadcast_def timesRegistered_def)
qed

lemma timesRegistered_distinct:
  assumes "registryOk b"
  shows "timesRegistered b syncId ch = (if registeredUnder b syncId ch then 1 else 0)"
proof (cases "subscribers b syncId")
  case None
  then show ?thesis by (simp add: timesRegistered_def registeredUnder_def)
next
  case (Some subs)
  with assms have "distinct subs" by (auto simp: registryOk_def)
  then have "count_list subs ch = (if ch \<in> set subs then 1 else 0)"
    by (induction subs) auto
  with Some show ?thesis by (simp add: timesRegistered_def registeredUnder_def)
qed

section \<open>Properties of the engine\<close>

subsection \<open>The strategy only talks to the providers\<close>

lemma ioStep_refl: "ioStep w w"
  by (simp add: ioStep_def)

lemma ioStep_trans:
  assumes "ioStep a b" "ioStep b c"
  shows "ioStep a c"
proof -
  from assms(1) obtain x where x: "trace b = trace a @ x" "list_all providerEvent x"
    unfolding ioStep_def by (metis append_take_drop_id)
  from assms(2) obtain y where y: "trace c = trace b @ y" "list_all providerEvent y"
    unfolding ioStep_def by (metis append_take_drop_id)
  from x y have "trace c = trace a @ (x @ y)" "list_all providerEvent (x @ y)" by simp_all
  then show ?thesis using assms by (simp add: ioStep_def)
qed

lemma ioStep_called: "ioStep w (called w op)"
  by (simp add: ioStep_def called_def)

lemma ioStep_playlists: "ioStep w w' \<Longrightarrow> ioStep w (w'\<lparr>playlists := p\<rparr>)"
  by (simp add: ioStep_def)

lemma ioStep_GetPlaylistSongs: "ioStep w (fst (GetPlaylistSongs env w c p))"
  by (simp add: GetPlaylistSongs_def ioStep_called)

lemma ioStep_ClearPlaylist: "ioStep w (fst (ClearPlaylist env w c p))"
  by (simp add: ClearPlaylist_def ioStep_called ioStep_playlists split: outcome.splits)

lemma ioStep_AddToPlaylist: "ioStep w (fst (AddToPlaylist env w c p s))"
  by (simp add: AddToPlaylist_def ioStep_called ioStep_playlists split: outcome.splits)

lemma ioStep_GetIdByDatasource: "ioStep w (fst (GetIdByDatasource env w s d))"
  by (simp add: GetIdByDatasource_def ioStep_called)

lemma ioStep_NormalizeSongs: "ioStep w (fst (NormalizeSongs env w s))"
  by (simp add: NormalizeSongs_def ioStep_called)

lemma ioStep_searchLoop: "ioStep w (fst (searchLoop env d r w songs))"
proof (induction songs arbitrary: r w)
  case Nil
  then show ?case by (simp add: ioStep_refl)
next
  case (Cons s songs)
  obtain w1 out where g: "GetIdByDatasource env w s d = (w1, out)" by force
  then have 1: "ioStep w w1" using ioStep_GetIdByDatasource[of w env s d] by simp
  show ?case
    using g 1 Cons[of w1]
    by (auto simp: split: outcome.splits intro: ioStep_trans)
qed

lemma ioStep_getSearchedSongs: "ioStep w (fst (getSearchedSongs env w songs d))"
  by (simp add: getSearchedSongs_def ioStep_searchLoop)

lemma ioStep_orWrap:
  assumes "ioStep w0 (fst r)" "\<And>w v. ioStep w (fst (k w v))"
  shows "ioStep w0 (fst (orWrap r msg k))"
proof (cases r)
  case (Pair w1 out)
  with assms(1) have 1: "ioStep w0 w1" by simp
  show ?thesis
    using Pair 1 assms(2)[of w1]
    by (cases out) (auto simp: orWrap_def intro: ioStep_trans)
qed

lemma ioStep_collectLoop: "ioStep w (fst (collectLoop env allSongs w sources))"
proof (induction sources arbitrary: allSongs w)
  case Nil
  then show ?case by (simp add: ioStep_refl)
next
  case (Cons s sources)
  show ?case
  proof (cases "getClient (SourceDatasource s)")
    case (Inl e)
    then show ?thesis by (simp add: ioStep_refl)
  next
    case (Inr c)
    obtain w1 out where g: "GetPlaylistSongs env w c (PlaylistId s) = (w1, out)" by force
    then have 1: "ioStep w w1" using ioStep_GetPlaylistSongs[of w env c "PlaylistId s"] by simp
    show ?thesis
      using Inr g 1 Cons[of w1]
      by (auto split: outcome.splits intro: ioStep_trans)
  qed
qed

lemma ioStep_runOneWaySync: "ioStep w (fst (runOneWaySync env w sync))"
  unfolding runOneWaySync_def
  by (auto split: sum.splits
      intro!: ioStep_refl ioStep_orWrap ioStep_GetPlaylistSongs ioStep_NormalizeSongs
        ioStep_getSearchedSongs ioStep_ClearPlaylist ioStep_AddToPlaylist)

lemma ioStep_runPlaylistMergeSync: "ioStep w (fst (runPlaylistMergeSync env w sync))"
proof -
  obtain w1 out where c: "collectLoop env [] w (Sources sync) = (w1, out)" by force
  then have 1: "ioStep w w1" using ioStep_collectLoop[of w env "[]" "Sources sync"] by simp
  have k: "ioStep w1 (fst (orWrap
        (if MergeOverwriteExisting sync
         then ClearPlaylist env w1 destClient (PlaylistId (MergeDestination sync))
         else (w1, Ok ()))
        ''failed to clear destination playlist'' (\<lambda>w _.
      orWrap (getSearchedSongs env w uniqueSongs (SourceDatasource (MergeDestination sync)))
        ''failed to search for songs on destination platform'' (\<lambda>w searchedSongs.
      orWrap (AddToPlaylist env w destClient (PlaylistId (MergeDestination sync)) searchedSongs)
        ''failed to add songs to destination playlist'' (\<lambda>w _. (w, Ok ()))))))"
    for destClient uniqueSongs
    by (auto intro!: ioStep_refl ioStep_orWrap ioStep_getSearchedSongs ioStep_ClearPlaylist
          ioStep_AddToPlaylist)
  show ?thesis
    unfolding runPlaylistMergeSync_def c
    using 1 k
    by (auto split: outcome.splits sum.splits intro: ioStep_trans)
qed

lemma ioStep_runStrategy: "ioStep w (fst (runStrategy env w sync))"
  by (simp add: runStrategy_def ioStep_runOneWaySync ioStep_runPlaylistMergeSync ioStep_refl
      split: SyncVariant.splits)

subsection \<open>Writing a run to the store\<close>

lemma sameRun_refl: "sameRun a a"
  by (simp add: sameRun_def)

lemma sameRun_stamps: "sameRun a (a\<lparr>CreatedAt := x, UpdatedAt := y\<rparr>)"
  by (simp add: sameRun_def)

text \<open>A write that the store refuses.\<close>

lemma store_refused:
  assumes "writeFaults w = True # fs"
  shows "\<exists>e. storeAndBroadcastSyncRun w run c =
           (w\<lparr>writeFaults := fs, trace := trace w @ [WriteFailed (SyncStatus run)]\<rparr>, Inl e)"
  using assms
  by (simp add: storeAndBroadcastSyncRun_def CreateSyncRun_def UpdateSyncRun_def)

text \<open>A write that the store accepts, for a run it holds or creates.\<close>

lemma store_accepted:
  assumes "writeFaults w = [] \<or> (\<exists>fs. writeFaults w = False # fs)"
      and "c \<or> syncRunStore w (RunId run) \<noteq> None"
  shows "\<exists>w' run'. storeAndBroadcastSyncRun w run c = (w', Inr run')
     \<and> sameRun run run'
     \<and> syncRunStore w' = (syncRunStore w)(RunId run \<mapsto>
           run\<lparr>CreatedAt := (if c then storeClock w
                                else CreatedAt (the (syncRunStore w (RunId run)))),
               UpdatedAt := storeClock w\<rparr>)
     \<and> writeFaults w' = tl (writeFaults w)
     \<and> playlists w' = playlists w
     \<and> trace w' = trace w @ [Persisted (SyncStatus run), Broadcasted (SyncStatus run)]"
proof -
  have nf: "(case writeFaults w of True # fs \<Rightarrow> a fs | _ \<Rightarrow> b) = b" for a and b :: 'z
    using assms(1) by (auto split: list.splits bool.splits)
  show ?thesis
  proof (cases c)
    case True
    show ?thesis
      unfolding storeAndBroadcastSyncRun_def CreateSyncRun_def GetSyncs_def nf
      using True
      by (auto simp: publish_def sameRun_def split: list.splits bool.splits)
  next
    case False
    with assms(2) obtain old where old: "syncRunStore w (RunId run) = Some old" by auto
    show ?thesis
      unfolding storeAndBroadcastSyncRun_def UpdateSyncRun_def GetSyncs_def nf
      using False old
      by (auto simp: publish_def sameRun_def split: list.splits bool.splits)
  qed
qed

text \<open>An update that the store accepts for a run it does not hold.\<close>

lemma store_missing:
  assumes "writeFaults w = [] \<or> (\<exists>fs. writeFaults w = False # fs)"
      and "syncRunStore w (RunId run) = None"
  shows "\<exists>w'. storeAndBroadcastSyncRun w run False = (w', Inr run)
     \<and> syncRunStore w' = syncRunStore w
     \<and> writeFaults w' = tl (writeFaults w)
     \<and> playlists w' = playlists w
     \<and> trace w' = trace w @ [Broadcasted (SyncStatus run)]"
proof -
  have nf: "(case writeFaults w of True # fs \<Rightarrow> a fs | _ \<Rightarrow> b) = b" for a and b :: 'z
    using assms(1) by (auto split: list.splits bool.splits)
  show ?thesis
    unfolding storeAndBroadcastSyncRun_def UpdateSyncRun_def GetSyncs_def nf
    using assms(2)
    by (auto simp: publish_def split: list.splits bool.splits)
qed

lemma faults_cases:
  obtains (refused) fs where "writeFaults w = True # fs"
  | (accepted) "writeFaults w = [] \<or> (\<exists>fs. writeFaults w = False # fs)"
  by (cases "writeFaults w") auto

lemma deferred_store:
  "\<exists>evs. trace (fst (storeAndBroadcastSyncRun w run False)) = trace w @ evs
     \<and> playlists (fst (storeAndBroadcastSyncRun w run False)) = playlists w
     \<and> (evs = [WriteFailed (SyncStatus run)] \<and> (\<exists>fs. writeFaults w = True # fs)
           \<and> syncRunStore (fst (storeAndBroadcastSyncRun w run False)) = syncRunStore w
        \<or> evs = [Broadcasted (SyncStatus run)] \<and> syncRunStore w (RunId run) = None
           \<and> syncRunStore (fst (storeAndBroadcastSyncRun w run False)) = syncRunStore w
        \<or> evs = [Persisted (SyncStatus run), Broadcasted (SyncStatus run)]
           \<and> \<not> (\<exists>fs. writeFaults w = True # fs)
           \<and> (\<exists>stored. sameRun run stored
                \<and> syncRunStore (fst (storeAndBroadcastSyncRun w run False))
                    = (syncRunStore w)(RunId run \<mapsto> stored)))"
proof (cases w rule: faults_cases)
  case (refused fs)
  from store_refused[OF refused, of run False] show ?thesis
    using refused by auto
next
  case accepted
  show ?thesis
  proof (cases "syncRunStore w (RunId run)")
    case None
    from store_missing[OF accepted None] show ?thesis using None by auto
  next
    case (Some old)
    then have "False \<or> syncRunStore w (RunId run) \<noteq> None" by simp
    from store_accepted[OF accepted this] obtain w' run' where
      s: "storeAndBroadcastSyncRun w run False = (w', Inr run')"
      and st: "syncRunStore w' = (syncRunStore w)(RunId run \<mapsto>
           run\<lparr>CreatedAt := (if False then storeClock w
                                else CreatedAt (the (syncRunStore w (RunId run)))),
               UpdatedAt := storeClock w\<rparr>)"
      and p: "playlists w' = playlists w"
      and t: "trace w' = trace w @ [Persisted (SyncStatus run), Broadcasted (SyncStatus run)]"
      by blast
    have nr: "\<not> (\<exists>fs. writeFaults w = True # fs)" using accepted by auto
    show ?thesis
      unfolding s fst_conv using st p t nr
      by (intro exI[of _ "[Persisted (SyncStatus run), Broadcasted (SyncStatus run)]"])
         (auto intro: sameRun_stamps)
  qed
qed

subsection \<open>How the body of RunSync can end\<close>

lemma RunSync_body_cases:
  obtains
    (create_refused) w1 run e fs where
      "RunSync_body env w sync = (w1, run, Ok (Some e))"
      "trace w1 = trace w @ [WriteFailed SYNC_STATUS_PENDING]"
      "SyncStatus run = SYNC_STATUS_PENDING" "RunId run = uuid env"
      "writeFaults w = True # fs" "writeFaults w1 = fs"
      "playlists w1 = playlists w" "syncRunStore w1 = syncRunStore w"
  | (running_refused) w1 run e fs where
      "RunSync_body env w sync = (w1, run, Ok (Some e))"
      "trace w1 = trace w @ [Persisted SYNC_STATUS_PENDING, Broadcasted SYNC_STATUS_PENDING,
                             WriteFailed SYNC_STATUS_RUNNING]"
      "SyncStatus run = SYNC_STATUS_RUNNING" "RunId run = uuid env"
      "syncRunStore w1 (uuid env) \<noteq> None"
      "tl (writeFaults w) = True # fs" "writeFaults w1 = fs"
      "playlists w1 = playlists w"
  | (ran) w2 w3 run2 out where
      "trace w2 = trace w @ [Persisted SYNC_STATUS_PENDING, Broadcasted SYNC_STATUS_PENDING,
                             Persisted SYNC_STATUS_RUNNING, Broadcasted SYNC_STATUS_RUNNING]"
      "playlists w2 = playlists w" "runStrategy env w2 sync = (w3, out)"
      "SyncStatus run2 = SYNC_STATUS_RUNNING" "RunId run2 = uuid env"
      "SyncId run2 = SyncIdOf sync" "UnmatchedSongs run2 = []"
      "\<exists>stored. syncRunStore w2 (uuid env) = Some stored
         \<and> SyncStatus stored = SYNC_STATUS_RUNNING \<and> UnmatchedSongs stored = []"
      "writeFaults w2 = tl (tl (writeFaults w))"
      "\<not> (\<exists>fs. writeFaults w = True # fs)" "\<not> (\<exists>fs. tl (writeFaults w) = True # fs)"
      "RunSync_body env w sync =
         (w3,
          (case out of Panicked \<Rightarrow> run2
           | Failed e \<Rightarrow> run2\<lparr>SyncStatus := SYNC_STATUS_FAILED\<rparr>
           | Ok u \<Rightarrow> run2\<lparr>SyncStatus := SYNC_STATUS_COMPLETED\<rparr>),
          (case out of Panicked \<Rightarrow> Panicked
           | Failed e \<Rightarrow> Ok (Some (WrappedError e ''sync execution failed''))
           | Ok u \<Rightarrow> Ok None))"
proof -
  define r0 where "r0 = \<lparr>SyncId = SyncIdOf sync, RunId = uuid env,
      SyncStatus = SYNC_STATUS_PENDING, UnmatchedSongs = [], CreatedAt = 0, UpdatedAt = 0\<rparr>"
  have r0: "RunId r0 = uuid env" "SyncStatus r0 = SYNC_STATUS_PENDING"
      "SyncId r0 = SyncIdOf sync" "UnmatchedSongs r0 = []"
    by (simp_all add: r0_def)
  have body: "RunSync_body env w sync =
      (case storeAndBroadcastSyncRun w r0 True of
           (w1, Inl e) \<Rightarrow>
             (w1, r0, Ok (Some (WrappedError e ''failed to store initial sync run'')))
         | (w1, Inr storedRun) \<Rightarrow>
             (case storeAndBroadcastSyncRun w1 (storedRun\<lparr>SyncStatus := SYNC_STATUS_RUNNING\<rparr>) False of
                   (w2, Inl e) \<Rightarrow>
                     (w2, storedRun\<lparr>SyncStatus := SYNC_STATUS_RUNNING\<rparr>,
                      Ok (Some (WrappedError e ''failed to store running sync status'')))
                 | (w2, Inr storedRun) \<Rightarrow>
                     (case runStrategy env w2 sync of
                           (w3, Panicked) \<Rightarrow> (w3, storedRun, Panicked)
                         | (w3, Failed syncErr) \<Rightarrow>
                             (w3, storedRun\<lparr>SyncStatus := SYNC_STATUS_FAILED\<rparr>,
                              Ok (Some (WrappedError syncErr ''sync execution failed'')))
                         | (w3, Ok _) \<Rightarrow>
                             (w3, storedRun\<lparr>SyncStatus := SYNC_STATUS_COMPLETED\<rparr>, Ok None))))"
    by (simp only: RunSync_body_def r0_def Let_def)
  show thesis
  proof (cases w rule: faults_cases)
    case (refused fs)
    from store_refused[OF refused, of r0 True] obtain e where
      s: "storeAndBroadcastSyncRun w r0 True =
            (w\<lparr>writeFaults := fs, trace := trace w @ [WriteFailed (SyncStatus r0)]\<rparr>, Inl e)"
      by blast
    show thesis
      by (rule create_refused[where ?w1.0 = "w\<lparr>writeFaults := fs,
              trace := trace w @ [WriteFailed (SyncStatus r0)]\<rparr>" and run = r0 and fs = fs])
         (simp_all add: body s r0 refused)
  next
    case accepted
    then have nr1: "\<not> (\<exists>fs. writeFaults w = True # fs)" by auto
    have "True \<or> syncRunStore w (RunId r0) \<noteq> None" by simp
    from store_accepted[OF accepted this] obtain w1 run1 where
      s1: "storeAndBroadcastSyncRun w r0 True = (w1, Inr run1)"
      and same1: "sameRun r0 run1"
      and st1: "syncRunStore w1 (RunId r0) \<noteq> None"
      and f1: "writeFaults w1 = tl (writeFaults w)"
      and p1: "playlists w1 = playlists w"
      and t1: "trace w1 = trace w @ [Persisted (SyncStatus r0), Broadcasted (SyncStatus r0)]"
      by (metis fun_upd_same option.distinct(1))
    define r1 where "r1 = run1\<lparr>SyncStatus := SYNC_STATUS_RUNNING\<rparr>"
    have r1: "RunId r1 = uuid env" "SyncStatus r1 = SYNC_STATUS_RUNNING"
        "SyncId r1 = SyncIdOf sync" "UnmatchedSongs r1 = []"
      using same1 r0 by (simp_all add: r1_def sameRun_def)
    show thesis
    proof (cases w1 rule: faults_cases)
      case (refused fs)
      from store_refused[OF refused, of r1 False] obtain e where
        s2: "storeAndBroadcastSyncRun w1 r1 False =
              (w1\<lparr>writeFaults := fs, trace := trace w1 @ [WriteFailed (SyncStatus r1)]\<rparr>, Inl e)"
        by blast
      show thesis
        by (rule running_refused[where ?w1.0 = "w1\<lparr>writeFaults := fs,
                trace := trace w1 @ [WriteFailed (SyncStatus r1)]\<rparr>" and run = r1 and fs = fs])
           (use st1 f1 p1 t1 refused in \<open>simp_all add: body s1 s2 r1 r0 r1_def[symmetric]\<close>)
    next
      case accepted
      then have nr2: "\<not> (\<exists>fs. tl (writeFaults w) = True # fs)" using f1 by auto
      have "False \<or> syncRunStore w1 (RunId r1) \<noteq> None" using st1 r0 r1 by simp
      from store_accepted[OF accepted this] obtain w2 run2 where
        s2: "storeAndBroadcastSyncRun w1 r1 False = (w2, Inr run2)"
        and same2: "sameRun r1 run2"
        and st2: "syncRunStore w2 = (syncRunStore w1)(RunId r1 \<mapsto>
           r1\<lparr>CreatedAt := (if False then storeClock w1
                                else CreatedAt (the (syncRunStore w1 (RunId r1)))),
               UpdatedAt := storeClock w1\<rparr>)"
        and f2: "writeFaults w2 = tl (writeFaults w1)"
        and p2: "playlists w2 = playlists w1"
        and t2: "trace w2 = trace w1 @ [Persisted (SyncStatus r1), Broadcasted (SyncStatus r1)]"
        by blast
      obtain w3 out where strat: "runStrategy env w2 sync = (w3, out)" by force
      have r2: "RunId run2 = uuid env" "SyncStatus run2 = SYNC_STATUS_RUNNING"
          "SyncId run2 = SyncIdOf sync" "UnmatchedSongs run2 = []"
        using same2 r1 by (simp_all add: sameRun_def)
      show thesis
      proof (rule ran[where ?w2.0 = w2 and ?w3.0 = w3 and ?run2.0 = run2 and out = out])
        show "RunSync_body env w sync =
         (w3,
          (case out of Panicked \<Rightarrow> run2
           | Failed e \<Rightarrow> run2\<lparr>SyncStatus := SYNC_STATUS_FAILED\<rparr>
           | Ok u \<Rightarrow> run2\<lparr>SyncStatus := SYNC_STATUS_COMPLETED\<rparr>),
          (case out of Panicked \<Rightarrow> Panicked
           | Failed e \<Rightarrow> Ok (Some (WrappedError e ''sync execution failed''))
           | Ok u \<Rightarrow> Ok None))"
          by (cases out) (simp_all add: body s1 r1_def[symmetric] s2 strat)
      qed (use t1 t2 p1 p2 f1 f2 st2 r0 r1 r2 strat nr1 nr2 in simp_all)
    qed
  qed
qed

subsection \<open>The events of a call of RunSync\<close>

lemma eventsSince_append: "trace w' = trace w @ evs \<Longrightarrow> eventsSince w w' = evs"
  by (simp add: eventsSince_def)

lemma ioStep_events:
  assumes "ioStep w w'"
  obtains ios where "trace w' = trace w @ ios" "list_all providerEvent ios"
  using assms unfolding ioStep_def by (metis append_take_drop_id)

lemma persistedStatuses_append:
  "persistedStatuses (xs @ ys) = persistedStatuses xs @ persistedStatuses ys"
  by (induction xs rule: persistedStatuses.induct) simp_all

lemma broadcastStatuses_append:
  "broadcastStatuses (xs @ ys) = broadcastStatuses xs @ broadcastStatuses ys"
  by (induction xs rule: broadcastStatuses.induct) simp_all

lemma persistedStatuses_io: "list_all providerEvent ios \<Longrightarrow> persistedStatuses ios = []"
  by (induction ios rule: persistedStatuses.induct) simp_all

lemma broadcastStatuses_io: "list_all providerEvent ios \<Longrightarrow> broadcastStatuses ios = []"
  by (induction ios rule: broadcastStatuses.induct) simp_all

lemma ioGuarded_io:
  "list_all providerEvent ios \<Longrightarrow> ioGuarded True True (ios @ es) = ioGuarded True True es"
  by (induction ios) (auto elim: providerEvent.elims)

lemma persistThenBroadcast_io:
  "list_all providerEvent ios \<Longrightarrow> persistThenBroadcast (ios @ es) = persistThenBroadcast es"
  by (induction ios) (auto elim: providerEvent.elims)

lemma RunSync_deferred_eq:
  "RunSync_deferred w run ending =
     (fst (storeAndBroadcastSyncRun w
        (case ending of Panicked \<Rightarrow> run\<lparr>SyncStatus := SYNC_STATUS_FAILED\<rparr> | _ \<Rightarrow> run) False),
      (case ending of Panicked \<Rightarrow> Ok None | _ \<Rightarrow> ending))"
  by (cases ending) (simp_all add: RunSync_deferred_def)

lemma RunSync_events:
  obtains
    (no_run) e evs2 where
      "snd (RunSync env w sync) = Ok (Some e)"
      "eventsSince w (fst (RunSync env w sync)) = WriteFailed SYNC_STATUS_PENDING # evs2"
      "evs2 = [WriteFailed SYNC_STATUS_PENDING] \<or> evs2 = [Broadcasted SYNC_STATUS_PENDING]
         \<or> evs2 = [Persisted SYNC_STATUS_PENDING, Broadcasted SYNC_STATUS_PENDING]"
      "\<exists>fs. writeFaults w = True # fs"
      "snd (snd (RunSync_body env w sync)) = Ok (Some e)"
  | (stuck) e evs2 where
      "snd (RunSync env w sync) = Ok (Some e)"
      "eventsSince w (fst (RunSync env w sync)) =
         [Persisted SYNC_STATUS_PENDING, Broadcasted SYNC_STATUS_PENDING,
          WriteFailed SYNC_STATUS_RUNNING] @ evs2"
      "evs2 = [WriteFailed SYNC_STATUS_RUNNING] \<or> evs2 = [Broadcasted SYNC_STATUS_RUNNING]
         \<or> evs2 = [Persisted SYNC_STATUS_RUNNING, Broadcasted SYNC_STATUS_RUNNING]"
      "\<exists>fs. tl (writeFaults w) = True # fs"
      "snd (snd (RunSync_body env w sync)) = Ok (Some e)"
  | (finished) w2 w3 out ios evs2 t where
      "playlists w2 = playlists w" "runStrategy env w2 sync = (w3, out)"
      "list_all providerEvent ios"
      "t = (case out of Ok u \<Rightarrow> SYNC_STATUS_COMPLETED | _ \<Rightarrow> SYNC_STATUS_FAILED)"
      "eventsSince w (fst (RunSync env w sync)) =
         [Persisted SYNC_STATUS_PENDING, Broadcasted SYNC_STATUS_PENDING,
          Persisted SYNC_STATUS_RUNNING, Broadcasted SYNC_STATUS_RUNNING] @ ios @ evs2"
      "snd (RunSync env w sync) =
         (case out of Panicked \<Rightarrow> Ok None
          | Failed e \<Rightarrow> Ok (Some (WrappedError e ''sync execution failed''))
          | Ok u \<Rightarrow> Ok None)"
      "snd (snd (RunSync_body env w sync)) =
         (case out of Panicked \<Rightarrow> Panicked
          | Failed e \<Rightarrow> Ok (Some (WrappedError e ''sync execution failed''))
          | Ok u \<Rightarrow> Ok None)"
      "playlists (fst (RunSync env w sync)) = playlists w3"
      "evs2 = [WriteFailed t] \<and> True \<in> set (writeFaults w)
           \<and> (\<exists>stored. syncRunStore (fst (RunSync env w sync)) (uuid env) = Some stored
                \<and> SyncStatus stored = SYNC_STATUS_RUNNING \<and> UnmatchedSongs stored = [])
       \<or> evs2 = [Persisted t, Broadcasted t]
           \<and> (\<exists>stored. syncRunStore (fst (RunSync env w sync)) (uuid env) = Some stored
                \<and> SyncStatus stored = t \<and> UnmatchedSongs stored = [])"
proof (cases rule: RunSync_body_cases[where env = env and w = w and sync = sync])
  case (create_refused w1 run e fs)
  let ?w' = "fst (storeAndBroadcastSyncRun w1 run False)"
  have R: "RunSync env w sync = (?w', Ok (Some e))"
    by (simp add: RunSync_def create_refused(1) RunSync_deferred_eq)
  from deferred_store[of w1 run] obtain evs2 where
    t: "trace ?w' = trace w1 @ evs2"
    and o: "evs2 = [WriteFailed (SyncStatus run)] \<or> evs2 = [Broadcasted (SyncStatus run)]
        \<or> evs2 = [Persisted (SyncStatus run), Broadcasted (SyncStatus run)]"
    by blast
  show thesis
  proof (rule no_run[of e evs2])
    show "eventsSince w (fst (RunSync env w sync)) = WriteFailed SYNC_STATUS_PENDING # evs2"
      unfolding R fst_conv by (rule eventsSince_append) (simp add: t create_refused(2))
  qed (use R o create_refused in simp_all)
next
  case (running_refused w1 run e fs)
  let ?w' = "fst (storeAndBroadcastSyncRun w1 run False)"
  have R: "RunSync env w sync = (?w', Ok (Some e))"
    by (simp add: RunSync_def running_refused(1) RunSync_deferred_eq)
  from deferred_store[of w1 run] obtain evs2 where
    t: "trace ?w' = trace w1 @ evs2"
    and o: "evs2 = [WriteFailed (SyncStatus run)] \<or> evs2 = [Broadcasted (SyncStatus run)]
        \<or> evs2 = [Persisted (SyncStatus run), Broadcasted (SyncStatus run)]"
    by blast
  show thesis
  proof (rule stuck[of e evs2])
    show "eventsSince w (fst (RunSync env w sync)) =
         [Persisted SYNC_STATUS_PENDING, Broadcasted SYNC_STATUS_PENDING,
          WriteFailed SYNC_STATUS_RUNNING] @ evs2"
      unfolding R fst_conv by (rule eventsSince_append) (simp add: t running_refused(2))
  qed (use R o running_refused in simp_all)
next
  case (ran w2 w3 run2 out)
  define t where "t = (case out of Ok u \<Rightarrow> SYNC_STATUS_COMPLETED | _ \<Rightarrow> SYNC_STATUS_FAILED)"
  define rf where "rf = run2\<lparr>SyncStatus := t\<rparr>"
  let ?w' = "fst (storeAndBroadcastSyncRun w3 rf False)"
  have rf: "SyncStatus rf = t" "RunId rf = uuid env" "UnmatchedSongs rf = []"
    using ran by (simp_all add: rf_def)
  have R: "RunSync env w sync =
      (?w', (case out of Panicked \<Rightarrow> Ok None
          | Failed e \<Rightarrow> Ok (Some (WrappedError e ''sync execution failed''))
          | Ok u \<Rightarrow> Ok None))"
    by (cases out) (simp_all add: RunSync_def ran(12) RunSync_deferred_eq rf_def t_def)
  have io: "ioStep w2 w3"
    using ioStep_runStrategy[of w2 env sync] ran(3) by simp
  then obtain ios where ios: "trace w3 = trace w2 @ ios" "list_all providerEvent ios"
    by (rule ioStep_events)
  from io have fr: "syncRunStore w3 = syncRunStore w2" "writeFaults w3 = writeFaults w2"
    by (simp_all add: ioStep_def)
  from ran(8) fr obtain stored where
    st: "syncRunStore w3 (uuid env) = Some stored" "SyncStatus stored = SYNC_STATUS_RUNNING"
      "UnmatchedSongs stored = []"
    by auto
  from deferred_store[of w3 rf] obtain evs2 where
    tr: "trace ?w' = trace w3 @ evs2"
    and pl: "playlists ?w' = playlists w3"
    and o: "evs2 = [WriteFailed (SyncStatus rf)] \<and> (\<exists>fs. writeFaults w3 = True # fs)
           \<and> syncRunStore ?w' = syncRunStore w3
        \<or> evs2 = [Broadcasted (SyncStatus rf)] \<and> syncRunStore w3 (RunId rf) = None
           \<and> syncRunStore ?w' = syncRunStore w3
        \<or> evs2 = [Persisted (SyncStatus rf), Broadcasted (SyncStatus rf)]
           \<and> \<not> (\<exists>fs. writeFaults w3 = True # fs)
           \<and> (\<exists>stored. sameRun rf stored
                \<and> syncRunStore ?w' = (syncRunStore w3)(RunId rf \<mapsto> stored))"
    by blast
  have fin: "evs2 = [WriteFailed t] \<and> True \<in> set (writeFaults w)
           \<and> (\<exists>stored. syncRunStore ?w' (uuid env) = Some stored
                \<and> SyncStatus stored = SYNC_STATUS_RUNNING \<and> UnmatchedSongs stored = [])
       \<or> evs2 = [Persisted t, Broadcasted t]
           \<and> (\<exists>stored. syncRunStore ?w' (uuid env) = Some stored
                \<and> SyncStatus stored = t \<and> UnmatchedSongs stored = [])"
    using o
  proof (elim disjE conjE exE)
    fix fs
    assume a: "evs2 = [WriteFailed (SyncStatus rf)]" "writeFaults w3 = True # fs"
       "syncRunStore ?w' = syncRunStore w3"
    from a(2) fr ran(9) have "tl (tl (writeFaults w)) = True # fs" by simp
    then have "True \<in> set (tl (tl (writeFaults w)))" by simp
    then have "True \<in> set (writeFaults w)"
      by (metis list.sel(2) list.set_sel(2))
    with a st rf show ?thesis by simp
  next
    assume "syncRunStore w3 (RunId rf) = None"
    with st rf show ?thesis by simp
  next
    fix stored'
    assume a: "evs2 = [Persisted (SyncStatus rf), Broadcasted (SyncStatus rf)]"
      "sameRun rf stored'" "syncRunStore ?w' = (syncRunStore w3)(RunId rf \<mapsto> stored')"
    then show ?thesis using rf by (auto simp: sameRun_def)
  qed
  show thesis
  proof (rule finished[of w2 w3 out ios t evs2])
    show "eventsSince w (fst (RunSync env w sync)) =
         [Persisted SYNC_STATUS_PENDING, Broadcasted SYNC_STATUS_PENDING,
          Persisted SYNC_STATUS_RUNNING, Broadcasted SYNC_STATUS_RUNNING] @ ios @ evs2"
      unfolding R fst_conv by (rule eventsSince_append) (simp add: tr ios ran(1))
    show "snd (snd (RunSync_body env w sync)) =
         (case out of Panicked \<Rightarrow> Panicked
          | Failed e \<Rightarrow> Ok (Some (WrappedError e ''sync execution failed''))
          | Ok u \<Rightarrow> Ok None)"
      by (simp add: ran(12))
  qed (use R ran ios t_def pl fin in simp_all)
qed

subsection \<open>Resolving the songs of a one-way sync\<close>



lemma resolved_unresolved_length:
  assumes "\<forall>song \<in> set songs. searchResult env song d \<noteq> Panicked"
  shows "length (resolvedSongs env d songs) + length (unresolvedSongs env d songs) = length songs"
  using assms
  by (induction songs) (auto simp: resolvedSongs_def unresolvedSongs_def split: outcome.splits)


subsection \<open>Evaluating the sample run\<close>

lemmas engine_eval =
  RunSync_def RunSync_body_def RunSync_deferred_def storeAndBroadcastSyncRun_def
  CreateSyncRun_def UpdateSyncRun_def GetSyncs_def publish_def runStrategy_def
  runOneWaySync_def orWrap_def getClient_def GetPlaylistSongs_def ClearPlaylist_def
  AddToPlaylist_def GetIdByDatasource_def NormalizeSongs_def getSearchedSongs_def
  called_def NewSong_def eventsSince_def Let_def

lemma sample_names:
  "Name songX \<noteq> str ''b''" "Name songY \<noteq> str ''b''" "Name songZ = str ''b''"
  by (simp_all add: songX_def songY_def songZ_def str_def)

subsection \<open>The earlier revision of RunSync\<close>

text \<open>Without the deferred function a panic of the strategy leaves \<open>RunSync\<close> as a
  panic, and the only status written before it is RUNNING.\<close>

lemma first_revision_panic:
  assumes "validateSync sync = None"
      and "storeAndBroadcastSyncRun w (getSyncRun env sync) True = (w1, Inr run)"
      and "snd (runStrategy env w1 sync) = Panicked"
  shows "snd (RunSync_part003_first env w sync) = Panicked"
  using assms
  by (cases "runStrategy env w1 sync") (simp add: RunSync_part003_first_def)

lemma first_revision_sample:
  "snd (RunSync_part003_first panicEnv (sampleWorld []) sampleSync) = Panicked
   \<and> persistedStatuses (eventsSince (sampleWorld [])
        (fst (RunSync_part003_first panicEnv (sampleWorld []) sampleSync)))
       = [SYNC_STATUS_RUNNING]"
  by (simp add: RunSync_part003_first_def validateSync_def getSyncRun_def engine_eval
        panicEnv_def sampleEnv_def sampleWorld_def sampleSync_def)

section \<open>Claims about the matcher\<close>




text \<open>
  C8.  The score is symmetric in its two songs, in the ISRC branch and in the weighted
  branch, for both revisions of \<open>CalculateSimilarity\<close>.
\<close>

theorem score_symmetric:
  "CalculateSimilarity lowerU stripU albumVar songA songB
     = CalculateSimilarity lowerU stripU albumVar songB songA
   \<and> CalculateSimilarity_part000 lowerU stripU songA songB
     = CalculateSimilarity_part000 lowerU stripU songB songA"
proof -
  have t: "titleScore lowerU stripU songA songB = titleScore lowerU stripU songB songA"
    by (simp add: titleScore_def normalizedLevenshtein_sym)
  have a: "artistScore lowerU stripU songA songB = artistScore lowerU stripU songB songA"
    by (simp add: artistScore_def Let_def tokenSetRatio_sym)
  have b: "albumScore lowerU stripU songA songB = albumScore lowerU stripU songB songA"
    by (simp add: albumScore_def normalizedLevenshtein_sym)
  have i: "(Isrc songA \<noteq> [] \<and> Isrc songA = Isrc songB)
      = (Isrc songB \<noteq> [] \<and> Isrc songB = Isrc songA)"
    by auto
  have c: "(albumVar songA \<noteq> [] \<and> albumVar songB \<noteq> [] \<and> x)
      = (albumVar songB \<noteq> [] \<and> albumVar songA \<noteq> [] \<and> x)" for x
    by auto
  show ?thesis
    unfolding CalculateSimilarity_def CalculateSimilarity_part000_def Let_def t a b i c by simp
qed

theorem score_symmetric_witness:
  "CalculateSimilarity id id AlbumName songY songX = 0
   \<and> CalculateSimilarity_part000 id id songY songX = 55"
proof -
  have "CalculateSimilarity id id AlbumName songX songY = 0"
    by (simp add: CalculateSimilarity_def scores_XY Let_def) (simp add: songX_def)
  moreover have "CalculateSimilarity_part000 id id songX songY = 55"
    by (simp add: CalculateSimilarity_part000_def scores_XY Let_def) (simp add: songX_def)
  ultimately show ?thesis
    using score_symmetric[of id id AlbumName songX songY] by simp
qed

text \<open>
  C10.  For two songs that do not share a non-empty ISRC: when neither cleaned artist
  line has a word, the artist score is 100 and adds its full 45 points to the result;
  when exactly one of them has no word, the artist score is 0.
\<close>

theorem artist_component_edge:
  assumes "\<not> (Isrc a \<noteq> [] \<and> Isrc a = Isrc b)"
  shows "(Fields (songArtists lowerU stripU a) = [] \<and> Fields (songArtists lowerU stripU b) = []
            \<longrightarrow> artistScore lowerU stripU a b = 100
              \<and> CalculateSimilarity lowerU stripU albumVar a b =
                  (if albumVar a \<noteq> [] \<and> albumVar b \<noteq> [] \<and> albumScore lowerU stripU a b < 70
                   then 0.30 else 0.45) * titleScore lowerU stripU a b
                  + 45 + 0.10 * albumScore lowerU stripU a b
              \<and> CalculateSimilarity_part000 lowerU stripU a b =
                  0.45 * titleScore lowerU stripU a b + 45 + 0.10 * albumScore lowerU stripU a b)
       \<and> ((Fields (songArtists lowerU stripU a) = []) \<noteq> (Fields (songArtists lowerU stripU b) = [])
            \<longrightarrow> artistScore lowerU stripU a b = 0)"
proof -
  have ar: "artistScore lowerU stripU a b =
      tokenSetRatio (songArtists lowerU stripU a) (songArtists lowerU stripU b)"
    by (simp add: artistScore_def songArtists_def Let_def)
  have both: "artistScore lowerU stripU a b = 100"
    if "Fields (songArtists lowerU stripU a) = []" "Fields (songArtists lowerU stripU b) = []"
    using that by (simp add: ar tokenSetRatio_def ToSet_def Let_def)
  have one: "artistScore lowerU stripU a b = 0"
    if "(Fields (songArtists lowerU stripU a) = []) \<noteq> (Fields (songArtists lowerU stripU b) = [])"
    using that by (auto simp: ar tokenSetRatio_def ToSet_def Let_def)
  show ?thesis
    using assms both one
    by (auto simp: CalculateSimilarity_def CalculateSimilarity_part000_def Let_def)
qed

theorem artist_component_edge_witness:
  "artistScore id id songZ songZ' = 100
   \<and> CalculateSimilarity_part000 id id songZ songX = 0.45 * titleScore id id songZ songX
        + 0.10 * albumScore id id songZ songX
   \<and> artistScore id id songZ songX = 0"
proof -
  have z: "Fields (songArtists id id songZ) = []" "Fields (songArtists id id songZ') = []"
    by (simp_all add: songArtists_def songZ_def songZ'_def Clean_literal Fields_def)
  have x: "Fields (songArtists id id songX) \<noteq> []"
    by (simp add: songArtists_def songX_def str_def Clean_literal Fields_def isSpace_def)
  have i: "\<not> (Isrc songZ \<noteq> [] \<and> Isrc songZ = Isrc songX)"
    by (simp add: songZ_def songX_def)
  have 1: "artistScore id id songZ songZ' = 100"
    using artist_component_edge[OF i, of id id AlbumName] z x
    by (simp add: artistScore_def songArtists_def tokenSetRatio_def ToSet_def Let_def)
  have 2: "artistScore id id songZ songX = 0"
    using artist_component_edge[OF i, of id id AlbumName] z x by simp
  have 3: "CalculateSimilarity_part000 id id songZ songX =
      0.45 * titleScore id id songZ songX + 0.10 * albumScore id id songZ songX"
    using artist_component_edge[OF i, of id id AlbumName] 2
    by (simp add: CalculateSimilarity_part000_def Let_def songZ_def songX_def)
  show ?thesis
    using 1 2 3 by blast
qed

text \<open>
  C7.  \<open>Clean\<close> is idempotent, because its result has the shape of cleaned text:
  only lower-case ASCII letters, digits and single spaces, and no space at either end.
\<close>

theorem Clean_idempotent:
  "Clean lowerU stripU (Clean lowerU stripU s) = Clean lowerU stripU s
   \<and> cleanShape (Clean lowerU stripU s)"
  using Clean_fixed[OF Clean_shape] Clean_shape by blast

theorem Clean_idempotent_witness:
  "Clean id id (str ''A (ft. X) b'') = str ''a b''
   \<and> Clean id id (str ''Up  [Live]!'') = str ''up''
   \<and> Clean id id (Clean id id (str ''A (ft. X) b'')) = str ''a b''"
proof -
  have 1: "Clean id id (str ''A (ft. X) b'') = str ''a b''"
    by (simp add: Clean_def str_def ToLower_def removeDiacritics_def featRegex_def
          tagsRegex_def nonAlphanumericRegex_def extraWhitespaceRegex_def TrimSpace_def
          opt_def plus_def foldEq_def reSpace_def isSpace_def lowerAlnum_def)
  have 2: "Clean id id (str ''Up  [Live]!'') = str ''up''"
    by (simp add: Clean_def str_def ToLower_def removeDiacritics_def featRegex_def
          tagsRegex_def nonAlphanumericRegex_def extraWhitespaceRegex_def TrimSpace_def
          opt_def plus_def foldEq_def reSpace_def isSpace_def lowerAlnum_def)
  show ?thesis
    using Clean_idempotent[of id id "str ''A (ft. X) b''"] 1 2 by simp
qed



section \<open>Claims about the creation of a sync\<close>



section \<open>Claims about the broadcaster\<close>

text \<open>
  C9.  \<open>Broadcast\<close> is a total function of the registry: it returns without waiting on
  any subscriber.  In every state of the registry it leaves the registry as it is and
  appends the run to the buffer of each channel once for every time the channel is
  listed under the sync id of the run, as far as the buffer has room; a channel that
  is not listed there is unchanged.  In a registry as \<open>Subscribe\<close> and \<open>Unsubscribe\<close>
  keep it, where no channel is listed twice, the run is appended exactly to the
  channels that are listed under the sync id of the run and have room; a full channel
  listed there is left as it is and reported as skipped.
\<close>

theorem Broadcast_send_or_drop:
  "subscribers (fst (Broadcast b v)) = subscribers b
   \<and> (\<forall>ch c. channels b ch = Some c \<longrightarrow>
         channels (fst (Broadcast b v)) ch =
           Some (c\<lparr>buffer := buffer c
              @ replicate (min (timesRegistered b (SyncId v) ch)
                               (capacity c - length (buffer c))) v\<rparr>))
   \<and> (\<forall>ch. channels b ch = None \<longrightarrow> channels (fst (Broadcast b v)) ch = None)
   \<and> (registryOk b \<longrightarrow>
        (\<forall>ch c. channels b ch = Some c \<longrightarrow>
           channels (fst (Broadcast b v)) ch =
             Some (if registeredUnder b (SyncId v) ch \<and> length (buffer c) < capacity c
                   then c\<lparr>buffer := buffer c @ [v]\<rparr> else c))
        \<and> (\<forall>ch. ch \<in> set (snd (Broadcast b v)) \<longleftrightarrow>
              registeredUnder b (SyncId v) ch
              \<and> (\<exists>c. channels b ch = Some c \<and> capacity c \<le> length (buffer c))))"
proof -
  have 1: "subscribers (fst (Broadcast b v)) = subscribers b"
    using Broadcast_buffers[of b v] by simp
  have 2: "\<forall>ch c. channels b ch = Some c \<longrightarrow>
         channels (fst (Broadcast b v)) ch =
           Some (c\<lparr>buffer := buffer c
              @ replicate (min (timesRegistered b (SyncId v) ch)
                               (capacity c - length (buffer c))) v\<rparr>)"
    using Broadcast_buffers[of b v] by simp
  have 3: "\<forall>ch. channels b ch = None \<longrightarrow> channels (fst (Broadcast b v)) ch = None"
    using Broadcast_buffers[of b v] by simp
  have 4: "registryOk b \<longrightarrow>
        (\<forall>ch c. channels b ch = Some c \<longrightarrow>
           channels (fst (Broadcast b v)) ch =
             Some (if registeredUnder b (SyncId v) ch \<and> length (buffer c) < capacity c
                   then c\<lparr>buffer := buffer c @ [v]\<rparr> else c))
        \<and> (\<forall>ch. ch \<in> set (snd (Broadcast b v)) \<longleftrightarrow>
              registeredUnder b (SyncId v) ch
              \<and> (\<exists>c. channels b ch = Some c \<and> capacity c \<le> length (buffer c)))"
  proof
    assume ok: "registryOk b"
    from Broadcast_effect[OF ok, of v] show "(\<forall>ch c. channels b ch = Some c \<longrightarrow>
           channels (fst (Broadcast b v)) ch =
             Some (if registeredUnder b (SyncId v) ch \<and> length (buffer c) < capacity c
                   then c\<lparr>buffer := buffer c @ [v]\<rparr> else c))
        \<and> (\<forall>ch. ch \<in> set (snd (Broadcast b v)) \<longleftrightarrow>
              registeredUnder b (SyncId v) ch
              \<and> (\<exists>c. channels b ch = Some c \<and> capacity c \<le> length (buffer c)))"
      by (auto simp: delivered_def not_less)
  qed
  from 1 2 3 4 show ?thesis by blast
qed

theorem Broadcast_send_or_drop_witness:
  "registryOk sampleBroadcaster
   \<and> channels (fst (Broadcast sampleBroadcaster sampleRun)) 0
       = Some \<lparr>buffer = [sampleRun], capacity = 1\<rparr>
   \<and> channels (fst (Broadcast sampleBroadcaster sampleRun)) 1
       = Some \<lparr>buffer = [sampleRun], capacity = 10\<rparr>
   \<and> channels (fst (Broadcast sampleBroadcaster sampleRun)) 2
       = Some \<lparr>buffer = [], capacity = 10\<rparr>"
proof -
  have r: "registeredUnder sampleBroadcaster (SyncId sampleRun) 0"
     "registeredUnder sampleBroadcaster (SyncId sampleRun) 1"
     "\<not> registeredUnder sampleBroadcaster (SyncId sampleRun) 2"
    by (simp_all add: registeredUnder_def sampleBroadcaster_def sampleRun_def)
  have c: "channels sampleBroadcaster 0 = Some \<lparr>buffer = [sampleRun], capacity = 1\<rparr>"
     "channels sampleBroadcaster 1 = Some \<lparr>buffer = [], capacity = 10\<rparr>"
     "channels sampleBroadcaster 2 = Some \<lparr>buffer = [], capacity = 10\<rparr>"
    by (simp_all add: sampleBroadcaster_def)
  have t: "\<forall>ch c. channels sampleBroadcaster ch = Some c \<longrightarrow>
      channels (fst (Broadcast sampleBroadcaster sampleRun)) ch =
        Some (if registeredUnder sampleBroadcaster (SyncId sampleRun) ch
                 \<and> length (buffer c) < capacity c
              then c\<lparr>buffer := buffer c @ [sampleRun]\<rparr> else c)"
    using Broadcast_send_or_drop[of sampleBroadcaster sampleRun] sample_registryOk by blast
  show ?thesis
    using t r c sample_registryOk by simp
qed

section \<open>Claims about the engine\<close>

text \<open>
  C1 (amended).  Whatever the store does, the statuses that a call of \<open>RunSync\<close> writes
  to the run store are a prefix of PENDING, RUNNING, COMPLETED or of PENDING, RUNNING,
  FAILED: there is no regression and at most one terminal status.  Every status written
  is handed to the broadcaster before anything else happens, and no provider is called
  before PENDING and RUNNING have both been written.  When the store refuses no write,
  the statuses written, and those broadcast, are exactly PENDING, RUNNING and one
  terminal status, which is the status the store holds for the run at the end.
\<close>

theorem RunSync_status_sequence:
  "(prefix (persistedStatuses (eventsSince w (fst (RunSync env w sync))))
        [SYNC_STATUS_PENDING, SYNC_STATUS_RUNNING, SYNC_STATUS_COMPLETED]
      \<or> prefix (persistedStatuses (eventsSince w (fst (RunSync env w sync))))
        [SYNC_STATUS_PENDING, SYNC_STATUS_RUNNING, SYNC_STATUS_FAILED])
   \<and> ioGuarded False False (eventsSince w (fst (RunSync env w sync)))
   \<and> persistThenBroadcast (eventsSince w (fst (RunSync env w sync)))
   \<and> (True \<notin> set (writeFaults w) \<longrightarrow>
        (\<exists>t. terminal t
           \<and> persistedStatuses (eventsSince w (fst (RunSync env w sync)))
               = [SYNC_STATUS_PENDING, SYNC_STATUS_RUNNING, t]
           \<and> broadcastStatuses (eventsSince w (fst (RunSync env w sync)))
               = [SYNC_STATUS_PENDING, SYNC_STATUS_RUNNING, t]
           \<and> (\<exists>stored. syncRunStore (fst (RunSync env w sync)) (uuid env) = Some stored
                 \<and> SyncStatus stored = t)))"
proof (cases rule: RunSync_events[where env = env and w = w and sync = sync])
  case (no_run e evs2)
  from no_run(4) have f: "True \<in> set (writeFaults w)" by auto
  from no_run(3) show ?thesis
    unfolding no_run(2) using f by auto
next
  case (stuck e evs2)
  from stuck(4) have f: "True \<in> set (writeFaults w)"
    by (metis list.sel(2) list.set_intros(1) list.set_sel(2))
  from stuck(3) show ?thesis
    unfolding stuck(2) using f by auto
next
  case (finished w2 w3 out ios evs2 t)
  have t: "t = SYNC_STATUS_COMPLETED \<or> t = SYNC_STATUS_FAILED"
    using finished(4) by (cases out) simp_all
  have io: "persistedStatuses ios = []" "broadcastStatuses ios = []"
    using finished(3) by (simp_all add: persistedStatuses_io broadcastStatuses_io)
  have g: "ioGuarded True True (ios @ evs2) = ioGuarded True True evs2"
    using finished(3) by (rule ioGuarded_io)
  have p: "persistThenBroadcast (ios @ evs2) = persistThenBroadcast evs2"
    using finished(3) by (rule persistThenBroadcast_io)
  from finished(9) show ?thesis
    unfolding finished(5) using t
    by (auto simp: persistedStatuses_append broadcastStatuses_append io g p terminal_def)
qed

theorem RunSync_status_sequence_witness:
  "persistedStatuses (eventsSince (sampleWorld [])
       (fst (RunSync sampleEnv (sampleWorld []) sampleSync)))
     = [SYNC_STATUS_PENDING, SYNC_STATUS_RUNNING, SYNC_STATUS_COMPLETED]
   \<and> ioGuarded False False (eventsSince (sampleWorld [])
       (fst (RunSync sampleEnv (sampleWorld []) sampleSync)))"
proof -
  have "True \<notin> set (writeFaults (sampleWorld []))"
    by (simp add: sampleWorld_def)
  moreover have "persistedStatuses (eventsSince (sampleWorld [])
       (fst (RunSync sampleEnv (sampleWorld []) sampleSync)))
     \<noteq> [SYNC_STATUS_PENDING, SYNC_STATUS_RUNNING, SYNC_STATUS_FAILED]"
    by (simp add: engine_eval sampleEnv_def sampleWorld_def sampleSync_def sample_names)
  ultimately show ?thesis
    using RunSync_status_sequence[of "sampleWorld []" sampleEnv sampleSync]
    by (auto simp: terminal_def)
qed

text \<open>
  C1 as stated fails when the store refuses a write: here the third write of the run,
  the one of the terminal status, is refused.  \<open>RunSync\<close> returns nil, the statuses
  written are PENDING and RUNNING, and the store is left holding RUNNING for the run:
  no terminal status.
\<close>

theorem no_terminal_status_counterexample:
  "persistedStatuses (eventsSince (sampleWorld [False, False, True])
       (fst (RunSync sampleEnv (sampleWorld [False, False, True]) sampleSync)))
     = [SYNC_STATUS_PENDING, SYNC_STATUS_RUNNING]
   \<and> snd (RunSync sampleEnv (sampleWorld [False, False, True]) sampleSync) = Ok None
   \<and> map_option SyncStatus
        (syncRunStore (fst (RunSync sampleEnv (sampleWorld [False, False, True]) sampleSync)) ''r1'')
     = Some SYNC_STATUS_RUNNING"
  by (simp add: engine_eval sampleEnv_def sampleWorld_def sampleSync_def sample_names)

text \<open>
  C4 (amended).  When the body of \<open>RunSync\<close> ends in a panic, which only the strategy
  can raise, the deferred function recovers it: \<open>RunSync\<close> returns (with nil), the
  status of the run is set to FAILED, and the last thing \<open>RunSync\<close> does is to store
  and broadcast that run.  When the store accepts the write, FAILED is the last status
  written and the last one broadcast, and the store holds FAILED for the run.
\<close>

theorem RunSync_recovers_panic:
  assumes "snd (snd (RunSync_body env w sync)) = Panicked"
  shows "snd (RunSync env w sync) = Ok None
     \<and> (\<exists>w2 w3. playlists w2 = playlists w \<and> runStrategy env w2 sync = (w3, Panicked))
     \<and> (\<exists>before.
           eventsSince w (fst (RunSync env w sync)) = before @ [WriteFailed SYNC_STATUS_FAILED]
           \<or> eventsSince w (fst (RunSync env w sync))
               = before @ [Persisted SYNC_STATUS_FAILED, Broadcasted SYNC_STATUS_FAILED])
     \<and> (True \<notin> set (writeFaults w) \<longrightarrow>
           last (persistedStatuses (eventsSince w (fst (RunSync env w sync)))) = SYNC_STATUS_FAILED
           \<and> last (broadcastStatuses (eventsSince w (fst (RunSync env w sync)))) = SYNC_STATUS_FAILED
           \<and> last (eventsSince w (fst (RunSync env w sync))) = Broadcasted SYNC_STATUS_FAILED
           \<and> (\<exists>stored. syncRunStore (fst (RunSync env w sync)) (uuid env) = Some stored
                 \<and> SyncStatus stored = SYNC_STATUS_FAILED))"
proof (cases rule: RunSync_events[where env = env and w = w and sync = sync])
  case (no_run e evs2)
  with assms show ?thesis by simp
next
  case (stuck e evs2)
  with assms show ?thesis by simp
next
  case (finished w2 w3 out ios evs2 t)
  from assms finished(7) have out: "out = Panicked" by (cases out) simp_all
  with finished(4) have t: "t = SYNC_STATUS_FAILED" by simp
  have io: "persistedStatuses ios = []" "broadcastStatuses ios = []"
    using finished(3) by (simp_all add: persistedStatuses_io broadcastStatuses_io)
  have 1: "snd (RunSync env w sync) = Ok None"
    using finished(6) out by simp
  have 2: "\<exists>w2 w3. playlists w2 = playlists w \<and> runStrategy env w2 sync = (w3, Panicked)"
    using finished(1,2) out by blast
  let ?pre = "[Persisted SYNC_STATUS_PENDING, Broadcasted SYNC_STATUS_PENDING,
          Persisted SYNC_STATUS_RUNNING, Broadcasted SYNC_STATUS_RUNNING] @ ios"
  have 3: "\<exists>before.
           eventsSince w (fst (RunSync env w sync)) = before @ [WriteFailed SYNC_STATUS_FAILED]
           \<or> eventsSince w (fst (RunSync env w sync))
               = before @ [Persisted SYNC_STATUS_FAILED, Broadcasted SYNC_STATUS_FAILED]"
    using finished(9) unfolding finished(5) t
    by (intro exI[of _ ?pre]) auto
  have 4: "True \<notin> set (writeFaults w) \<longrightarrow>
           last (persistedStatuses (eventsSince w (fst (RunSync env w sync)))) = SYNC_STATUS_FAILED
           \<and> last (broadcastStatuses (eventsSince w (fst (RunSync env w sync)))) = SYNC_STATUS_FAILED
           \<and> last (eventsSince w (fst (RunSync env w sync))) = Broadcasted SYNC_STATUS_FAILED
           \<and> (\<exists>stored. syncRunStore (fst (RunSync env w sync)) (uuid env) = Some stored
                 \<and> SyncStatus stored = SYNC_STATUS_FAILED)"
    using finished(9) unfolding finished(5) t
    by (auto simp: persistedStatuses_append broadcastStatuses_append io)
  from 1 2 3 4 show ?thesis by blast
qed

theorem RunSync_recovers_panic_witness:
  "snd (RunSync panicEnv (sampleWorld []) sampleSync) = Ok None
   \<and> last (persistedStatuses (eventsSince (sampleWorld [])
        (fst (RunSync panicEnv (sampleWorld []) sampleSync)))) = SYNC_STATUS_FAILED"
proof -
  have p: "snd (snd (RunSync_body panicEnv (sampleWorld []) sampleSync)) = Panicked"
    by (simp add: engine_eval panicEnv_def sampleEnv_def sampleWorld_def sampleSync_def)
  have f: "True \<notin> set (writeFaults (sampleWorld []))"
    by (simp add: sampleWorld_def)
  show ?thesis
    using RunSync_recovers_panic[OF p] f by blast
qed

text \<open>
  C4 as stated fails when the store refuses the last write: the strategy panics,
  \<open>RunSync\<close> recovers and returns nil, but FAILED is neither written nor broadcast, and
  the store is left holding RUNNING for the run.
\<close>

theorem panic_left_running_counterexample:
  "snd (snd (RunSync_body panicEnv (sampleWorld [False, False, True]) sampleSync)) = Panicked
   \<and> snd (RunSync panicEnv (sampleWorld [False, False, True]) sampleSync) = Ok None
   \<and> persistedStatuses (eventsSince (sampleWorld [False, False, True])
        (fst (RunSync panicEnv (sampleWorld [False, False, True]) sampleSync)))
       = [SYNC_STATUS_PENDING, SYNC_STATUS_RUNNING]
   \<and> broadcastStatuses (eventsSince (sampleWorld [False, False, True])
        (fst (RunSync panicEnv (sampleWorld [False, False, True]) sampleSync)))
       = [SYNC_STATUS_PENDING, SYNC_STATUS_RUNNING]
   \<and> map_option SyncStatus
        (syncRunStore (fst (RunSync panicEnv (sampleWorld [False, False, True]) sampleSync)) ''r1'')
       = Some SYNC_STATUS_RUNNING"
  by (simp add: engine_eval panicEnv_def sampleEnv_def sampleWorld_def sampleSync_def)




end
